theory Spec2Isabelle
  imports Complex_Main "HOL-Library.Multiset"
begin

section \<open>Data model of the backtest engine\<close>

text \<open>
  The engine (\<^verbatim>\<open>src/backtest/engine.py\<close>) works on a pandas DataFrame of OHLCV bars
  indexed by timestamp and on a signal series (1 = entry, -1 = exit, anything else = none).
  Prices and money are Python/numpy floats; they are modelled as exact reals, so rounding
  is idealised away, and NaN and the infinities are not values of the model: a frame that
  holds them is outside it. The one place where the engine turns a non-finite float into
  an exception, \<^verbatim>\<open>int(cash / entry_price)\<close>, keeps its failure branches (see
  \<open>int_of_quotient\<close> below). Timestamps are the int64 nanosecond values of the
  DatetimeIndex; differences of timestamps are taken to fit in int64 (pandas raises on a
  Timedelta beyond about 292 years). A DataFrame has all its columns of one length, hence a
  list of bar records.
\<close>

record bar =
  Date :: int
  High :: real
  Low :: real
  Close :: real

type_synonym df = "bar list"

datatype strategy_type = Long | Short

datatype reason = Signal | TrailingStop | ForcedMax | EndOfData

datatype py_error = IndexError | OverflowError | ValueError

record trade =
  entry_date :: int
  exit_date :: int
  entry_price :: real
  exit_price :: real
  shares :: int
  profit :: real
  profit_pct :: real
  holding_days :: int
  forced_exit :: bool
  within_target_period :: bool
  exit_reason :: reason

text \<open>The fields of \<^verbatim>\<open>BacktestEngine\<close> that the simulator reads.\<close>

record engine =
  initial_capital :: real
  target_holding_days :: int
  max_holding_days :: int
  trailing_stop_enabled :: bool
  trailing_stop_long :: real
  trailing_stop_short :: real

text \<open>Python's \<^verbatim>\<open>int(x)\<close> on a finite float truncates toward zero.\<close>

definition py_int :: "real \<Rightarrow> int" where
  "py_int x = (if x < 0 then \<lceil>x\<rceil> else \<lfloor>x\<rfloor>)"

text \<open>
  \<^verbatim>\<open>int(cash / entry_price)\<close>, the share count of both simulators. The quotient is a
  numpy double. With a zero divisor it is inf, or nan for 0 / 0; with a non-zero divisor it
  is inf as soon as its magnitude reaches \<open>float_inf\<close>, the bound from which a double
  rounds to infinity: \<open>2 ^ 1024 - 2 ^ 970\<close>, written out in decimal (the largest double
  is \<open>2 ^ 1024 - 2 ^ 971\<close>). \<^verbatim>\<open>int(inf)\<close> raises OverflowError and \<^verbatim>\<open>int(nan)\<close>
  raises ValueError.
\<close>

definition float_inf :: real where
  "float_inf =
     179769313486231580793728971405303415079934132710037826936173778980444968292764750946649017977587207096330286416692887910946555547851940402630657488671505820681908902000708383676273854845817711531764475730270069855571366959622842914819860834936475292719074168444365510704342711559699508093042880177904174497792"

definition int_of_quotient :: "real \<Rightarrow> real \<Rightarrow> py_error + int" where
  "int_of_quotient cash entry_pr =
     (if entry_pr = 0 then Inl (if cash = 0 then ValueError else OverflowError)
      else if float_inf \<le> \<bar>cash / entry_pr\<bar> then Inl OverflowError
      else Inr (py_int (cash / entry_pr)))"

definition ns_per_day :: int where
  "ns_per_day = 86400 * 1000000000"

text \<open>\<^verbatim>\<open>(b - a).days\<close> of two timestamps: the floor of the difference in days.\<close>

definition days_between :: "int \<Rightarrow> int \<Rightarrow> int" where
  "days_between a b = (b - a) div ns_per_day"


section \<open>Trade classifier\<close>

text \<open>
  \<^verbatim>\<open>_classify_trades\<close>: three boolean masks over the trade table, each selecting a
  sub-list in the original order.
\<close>

definition select_mask :: "bool list \<Rightarrow> 'a list \<Rightarrow> 'a list" where
  "select_mask msk xs = map snd (filter fst (zip msk xs))"

definition classify_trades :: "engine \<Rightarrow> trade list \<Rightarrow> trade list \<times> trade list \<times> trade list" where
  "classify_trades self trades =
     (if trades = [] then ([], [], [])
      else
        let valid_mask = map (\<lambda>t. holding_days t \<le> target_holding_days self) trades;
            forced_mask = map (\<lambda>(v, t). \<not> v \<and> forced_exit t) (zip valid_mask trades);
            excluded_mask = map (\<lambda>(v, t). \<not> v \<and> \<not> forced_exit t) (zip valid_mask trades)
        in (select_mask valid_mask trades,
            select_mask forced_mask trades,
            select_mask excluded_mask trades))"


section \<open>numpy helpers\<close>

text \<open>\<^verbatim>\<open>np.where(arr == v)[0]\<close>: the indices holding \<open>v\<close>, ascending.\<close>

definition where_eq :: "int list \<Rightarrow> int \<Rightarrow> nat list" where
  "where_eq arr v = filter (\<lambda>i. arr ! i = v) [0..<length arr]"

text \<open>\<^verbatim>\<open>np.maximum.accumulate\<close> / \<^verbatim>\<open>np.minimum.accumulate\<close>: running fold.\<close>

fun accumulate :: "('a \<Rightarrow> 'a \<Rightarrow> 'a) \<Rightarrow> 'a list \<Rightarrow> 'a list" where
  "accumulate f [] = []"
| "accumulate f [x] = [x]"
| "accumulate f (x # y # ys) = x # accumulate f (f x y # ys)"

text \<open>\<^verbatim>\<open>m.any()\<close> and \<^verbatim>\<open>np.argmax(m)\<close> of a boolean array (first True, 0 if none).\<close>

definition any_mask :: "bool list \<Rightarrow> bool" where
  "any_mask m = (True \<in> set m)"

definition argmax_mask :: "bool list \<Rightarrow> nat" where
  "argmax_mask m = (if any_mask m then length (takeWhile Not m) else 0)"

text \<open>\<^verbatim>\<open>xs[i:j]\<close> for \<open>0 \<le> i\<close>, \<open>0 \<le> j\<close>.\<close>

definition slice :: "nat \<Rightarrow> nat \<Rightarrow> 'a list \<Rightarrow> 'a list" where
  "slice i j xs = take (j - i) (drop i xs)"

text \<open>
  \<^verbatim>\<open>np.searchsorted(a, v, side='right')\<close> on the exit candidates. They come from
  \<^verbatim>\<open>np.where\<close> and are ascending, and on an ascending array the position found is the
  number of leading elements \<open>\<le> v\<close>.
\<close>

definition searchsorted_right :: "nat list \<Rightarrow> nat \<Rightarrow> nat" where
  "searchsorted_right a v = length (takeWhile (\<lambda>x. x \<le> v) a)"

text \<open>
  \<^verbatim>\<open>df.index.searchsorted(v)\<close> (side left) on the timestamps of the frame, which need not
  be ascending: numpy's bisection, as it runs for one key. On an ascending array it finds
  the number of leading elements \<open>< v\<close>.
\<close>

function bisect_left :: "int list \<Rightarrow> int \<Rightarrow> nat \<Rightarrow> nat \<Rightarrow> nat" where
  "bisect_left a v min_idx max_idx =
     (if min_idx < max_idx then
        (if a ! (min_idx + (max_idx - min_idx) div 2) < v
         then bisect_left a v (min_idx + (max_idx - min_idx) div 2 + 1) max_idx
         else bisect_left a v min_idx (min_idx + (max_idx - min_idx) div 2))
      else min_idx)"
  by pat_completeness auto

termination
  by (relation "measure (\<lambda>(a, v, min_idx, max_idx). max_idx - min_idx)") auto

declare bisect_left.simps [simp del]

definition searchsorted :: "int list \<Rightarrow> int \<Rightarrow> nat" where
  "searchsorted a v = bisect_left a v 0 (length a)"

text \<open>\<^verbatim>\<open>a[i:j] = f(k)\<close> elementwise for the positions \<open>k\<close> of the slice; slices clip at the end.\<close>

definition fill_slice :: "nat \<Rightarrow> nat \<Rightarrow> (nat \<Rightarrow> 'a) \<Rightarrow> 'a list \<Rightarrow> 'a list" where
  "fill_slice i j f xs = map (\<lambda>k. if i \<le> k \<and> k < j then f k else xs ! k) [0..<length xs]"


section \<open>Vectorised simulator\<close>

text \<open>
  \<^verbatim>\<open>_execute_trades_vectorized\<close>, lines 546-566: the trailing-stop candidate of an entry.
  The columns High and Low are taken as present.
\<close>

definition trailing_stop_idx :: "engine \<Rightarrow> df \<Rightarrow> strategy_type \<Rightarrow> nat \<Rightarrow> real \<Rightarrow> nat option" where
  "trailing_stop_idx self df st entry_idx entry_pr =
     (if trailing_stop_enabled self \<and> entry_idx + 1 < length df then
        (if st = Long then
           let cummax = accumulate max (map (\<lambda>h. max h entry_pr) (drop (entry_idx + 1) (map High df)));
               trailing_stop_prices = map (\<lambda>c. c * (1 - trailing_stop_long self)) cummax;
               hit_mask = map (\<lambda>(p, s). p < s) (zip (drop (entry_idx + 1) (map Close df)) trailing_stop_prices)
           in if any_mask hit_mask then Some (entry_idx + 1 + argmax_mask hit_mask) else None
         else
           let cummin = accumulate min (map (\<lambda>l. min l entry_pr) (drop (entry_idx + 1) (map Low df)));
               trailing_stop_prices = map (\<lambda>c. c * (1 + trailing_stop_short self)) cummin;
               hit_mask = map (\<lambda>(p, s). p > s) (zip (drop (entry_idx + 1) (map Close df)) trailing_stop_prices)
           in if any_mask hit_mask then Some (entry_idx + 1 + argmax_mask hit_mask) else None)
      else None)"

text \<open>Lines 568-575: the forced (maximum holding period) candidate, searched in a window.\<close>

definition forced_exit_idx :: "engine \<Rightarrow> df \<Rightarrow> nat \<Rightarrow> nat option" where
  "forced_exit_idx self df entry_idx =
     (let n = length df;
          search_end = min (int entry_idx + max_holding_days self + 2) (int n)
      in if int entry_idx + 1 < search_end then
           let entry_ns = Date (df ! entry_idx);
               days_held_arr = map (\<lambda>d. (d - entry_ns) div ns_per_day)
                                 (slice (entry_idx + 1) (nat search_end) (map Date df));
               forced_mask = map (\<lambda>d. d \<ge> max_holding_days self) days_held_arr
           in if any_mask forced_mask then Some (entry_idx + 1 + argmax_mask forced_mask) else None
         else None)"

text \<open>
  Lines 579-605: the exit bar and its reason, from the exit signals after the entry
  (\<open>valid_exits\<close>) and the two candidates above. \<open>n\<close> is positive wherever this is reached.
\<close>

definition signal_exit_idx :: "nat \<Rightarrow> nat list \<Rightarrow> nat" where
  "signal_exit_idx n valid_exits = (case valid_exits of [] \<Rightarrow> n - 1 | v # _ \<Rightarrow> v)"

definition resolve_exit :: "nat \<Rightarrow> nat list \<Rightarrow> nat option \<Rightarrow> nat option \<Rightarrow> nat \<times> bool \<times> reason" where
  "resolve_exit n valid_exits trailing_stop forced =
     (let r0 = (signal_exit_idx n valid_exits, False, Signal);
          r1 = (case trailing_stop of
                  Some t \<Rightarrow> if t < fst r0 then (t, False, TrailingStop) else r0
                | None \<Rightarrow> r0);
          r2 = (case forced of
                  Some f \<Rightarrow> if f < fst r1 then (f, True, ForcedMax) else r1
                | None \<Rightarrow> r1)
      in if fst r2 = n - 1 \<and> snd (snd r2) = Signal
            \<and> (valid_exits = [] \<or> hd valid_exits = n - 1)
         then (fst r2, True, EndOfData)
         else r2)"

record vstate =
  v_cash :: real
  v_current_pos :: nat
  v_trades :: "trade list"

text \<open>
  One iteration of the loop over \<open>entry_candidates\<close> (lines 529-660), in the order of the
  source: the exit of this entry (lines 537-605), the share count (line 617), the trade
  record (lines 622-656) and the cash after settlement (line 659). Reading
  \<^verbatim>\<open>dates[entry_idx]\<close> or \<^verbatim>\<open>dates[exit_idx]\<close> beyond the frame raises IndexError, and
  the share count raises when the quotient is not finite.
\<close>

definition exit_for ::
  "engine \<Rightarrow> df \<Rightarrow> nat list \<Rightarrow> real \<Rightarrow> strategy_type \<Rightarrow> nat \<Rightarrow> nat \<times> bool \<times> reason" where
  "exit_for self df exit_candidates slippage st entry_idx =
     (let entry_pr = Close (df ! entry_idx) * (1 + slippage);
          exit_search_idx = searchsorted_right exit_candidates entry_idx;
          valid_exits = drop exit_search_idx exit_candidates;
          trailing_stop = trailing_stop_idx self df st entry_idx entry_pr;
          forced = forced_exit_idx self df entry_idx
      in resolve_exit (length df) valid_exits trailing_stop forced)"

text \<open>Line 617: \<^verbatim>\<open>int(cash / entry_price) if entry_price > 0 else 0\<close>.\<close>

definition position_size :: "real \<Rightarrow> real \<Rightarrow> py_error + int" where
  "position_size cash entry_pr = (if entry_pr > 0 then int_of_quotient cash entry_pr else Inr 0)"

definition lending_cost_of :: "strategy_type \<Rightarrow> int \<Rightarrow> real \<Rightarrow> real \<Rightarrow> int \<Rightarrow> real" where
  "lending_cost_of st pos entry_pr lending_rate hold =
     (if st = Short then real_of_int pos * entry_pr * lending_rate * (real_of_int hold / 365) else 0)"

definition make_trade ::
  "engine \<Rightarrow> df \<Rightarrow> real \<Rightarrow> real \<Rightarrow> real \<Rightarrow> strategy_type \<Rightarrow> nat \<Rightarrow> nat \<times> bool \<times> reason \<Rightarrow> int
     \<Rightarrow> trade" where
  "make_trade self df commission slippage lending_rate st entry_idx r pos =
     (let entry_dt = Date (df ! entry_idx);
          entry_pr = Close (df ! entry_idx) * (1 + slippage);
          exit_dt = Date (df ! fst r);
          exit_pr = Close (df ! fst r) * (1 - slippage);
          hold = days_between entry_dt exit_dt;
          cost = real_of_int pos * entry_pr;
          entry_commission = cost * commission;
          proceeds = real_of_int pos * exit_pr;
          exit_commission = proceeds * commission;
          lending_cost = lending_cost_of st pos entry_pr lending_rate hold;
          pft = (if st = Long
                 then (exit_pr - entry_pr) * real_of_int pos - (entry_commission + exit_commission)
                 else (entry_pr - exit_pr) * real_of_int pos - (entry_commission + exit_commission)
                        - lending_cost);
          pct = (if cost > 0 then (pft / cost) * 100 else 0)
      in \<lparr>entry_date = entry_dt, exit_date = exit_dt,
          entry_price = entry_pr, exit_price = exit_pr,
          shares = pos, profit = pft, profit_pct = pct,
          holding_days = hold, forced_exit = fst (snd r),
          within_target_period = (hold \<le> target_holding_days self),
          exit_reason = snd (snd r)\<rparr>)"

definition cash_after ::
  "df \<Rightarrow> real \<Rightarrow> real \<Rightarrow> real \<Rightarrow> strategy_type \<Rightarrow> nat \<Rightarrow> nat \<Rightarrow> int \<Rightarrow> real \<Rightarrow> real" where
  "cash_after df commission slippage lending_rate st entry_idx exit_idx pos cash =
     (let entry_pr = Close (df ! entry_idx) * (1 + slippage);
          exit_pr = Close (df ! exit_idx) * (1 - slippage);
          hold = days_between (Date (df ! entry_idx)) (Date (df ! exit_idx));
          cost = real_of_int pos * entry_pr;
          entry_commission = cost * commission;
          proceeds = real_of_int pos * exit_pr;
          exit_commission = proceeds * commission;
          lending_cost = lending_cost_of st pos entry_pr lending_rate hold
      in cash - cost - entry_commission + proceeds - exit_commission - lending_cost)"

definition vec_step ::
  "engine \<Rightarrow> df \<Rightarrow> nat list \<Rightarrow> real \<Rightarrow> real \<Rightarrow> real \<Rightarrow> strategy_type \<Rightarrow> nat \<Rightarrow> vstate
     \<Rightarrow> py_error + vstate" where
  "vec_step self df exit_candidates commission slippage lending_rate st entry_idx s =
     (if entry_idx < v_current_pos s then Inr s
      else if length df \<le> entry_idx then Inl IndexError
      else
        let r = exit_for self df exit_candidates slippage st entry_idx;
            exit_idx = fst r
        in if length df \<le> exit_idx then Inl IndexError
           else
             case position_size (v_cash s) (Close (df ! entry_idx) * (1 + slippage)) of
               Inl err \<Rightarrow> Inl err
             | Inr pos \<Rightarrow>
                 if pos = 0 then Inr (s\<lparr>v_current_pos := exit_idx + 1\<rparr>)
                 else Inr \<lparr>v_cash = cash_after df commission slippage lending_rate st
                                       entry_idx exit_idx pos (v_cash s),
                           v_current_pos = exit_idx + 1,
                           v_trades = v_trades s
                             @ [make_trade self df commission slippage lending_rate st entry_idx r pos]\<rparr>)"

fun vec_loop ::
  "engine \<Rightarrow> df \<Rightarrow> nat list \<Rightarrow> real \<Rightarrow> real \<Rightarrow> real \<Rightarrow> strategy_type \<Rightarrow> nat list \<Rightarrow> vstate
     \<Rightarrow> py_error + vstate" where
  "vec_loop self df xc commission slippage lending_rate st [] s = Inr s"
| "vec_loop self df xc commission slippage lending_rate st (entry_idx # rest) s =
     (case vec_step self df xc commission slippage lending_rate st entry_idx s of
        Inl e \<Rightarrow> Inl e
      | Inr s' \<Rightarrow> vec_loop self df xc commission slippage lending_rate st rest s')"

text \<open>\<^verbatim>\<open>_calculate_equity_from_trades_vectorized\<close> (lines 670-726).\<close>

fun equity_loop :: "df \<Rightarrow> strategy_type \<Rightarrow> trade list \<Rightarrow> real \<Rightarrow> real list \<Rightarrow> real list" where
  "equity_loop df st [] cash equity = equity"
| "equity_loop df st (t # rest) cash equity =
     (let n = length df;
          entry_idx = searchsorted (map Date df) (entry_date t);
          exit_idx = searchsorted (map Date df) (exit_date t);
          equity1 = (if entry_idx > 0 then fill_slice 0 entry_idx (\<lambda>k. cash) equity else equity);
          trade_end = min (exit_idx + 1) n;
          equity2 = (if entry_idx < trade_end then
                       (if st = Long then
                          fill_slice entry_idx trade_end
                            (\<lambda>k. cash - real_of_int (shares t) * entry_price t
                                    + real_of_int (shares t) * Close (df ! k)) equity1
                        else
                          fill_slice entry_idx trade_end
                            (\<lambda>k. cash + real_of_int (shares t) * (entry_price t - Close (df ! k))) equity1)
                     else equity1);
          cash' = cash + profit t;
          equity3 = (if exit_idx + 1 < n then fill_slice (exit_idx + 1) n (\<lambda>k. cash') equity2
                     else equity2)
      in equity_loop df st rest cash' equity3)"

definition calculate_equity_from_trades_vectorized ::
  "engine \<Rightarrow> df \<Rightarrow> trade list \<Rightarrow> strategy_type \<Rightarrow> real list" where
  "calculate_equity_from_trades_vectorized self df trades st =
     (let equity = replicate (length df) (initial_capital self)
      in if trades = [] then equity
         else equity_loop df st trades (initial_capital self) equity)"

definition execute_trades_vectorized ::
  "engine \<Rightarrow> df \<Rightarrow> int list \<Rightarrow> real \<Rightarrow> real \<Rightarrow> real \<Rightarrow> strategy_type
     \<Rightarrow> py_error + (trade list \<times> real list)" where
  "execute_trades_vectorized self df signals commission slippage lending_rate st =
     (if length df = 0 then Inr ([], [])
      else
        let entry_candidates = where_eq signals 1;
            exit_candidates = where_eq signals (- 1)
        in case vec_loop self df exit_candidates commission slippage lending_rate st entry_candidates
                  \<lparr>v_cash = initial_capital self, v_current_pos = 0, v_trades = []\<rparr> of
             Inl e \<Rightarrow> Inl e
           | Inr s \<Rightarrow> Inr (v_trades s,
                           calculate_equity_from_trades_vectorized self df (v_trades s) st))"


section \<open>Per-bar simulator\<close>

text \<open>
  \<^verbatim>\<open>_execute_trades\<close> (lines 302-466). The local variables of the loop are the state.
  The share count \<^verbatim>\<open>int(cash / entry_price)\<close> is taken without a guard on the entry
  price, so it also raises on a zero divisor. The entry date is set whenever the position
  is positive, so the date 0 written for a missing entry date in a trade record is never
  produced.
\<close>

record bstate =
  b_cash :: real
  b_position :: int
  b_entry_price :: real
  b_entry_date :: "int option"
  b_trades :: "trade list"
  b_equity :: "real list"

definition bar_step ::
  "engine \<Rightarrow> real \<Rightarrow> real \<Rightarrow> real \<Rightarrow> strategy_type \<Rightarrow> int \<Rightarrow> real \<Rightarrow> int \<Rightarrow> bstate
     \<Rightarrow> py_error + bstate" where
  "bar_step self commission slippage lending_rate st dt price signal s =
     (let current_equity =
            (if b_position s = 0 then b_cash s
             else if st = Long then b_cash s + real_of_int (b_position s) * price
             else b_cash s + real_of_int (b_position s) * (b_entry_price s - price));
          s1 = s\<lparr>b_equity := b_equity s @ [current_equity]\<rparr>;
          force_exit = (case b_entry_date s of
                          Some d \<Rightarrow> b_position s > 0 \<and> days_between d dt \<ge> max_holding_days self
                        | None \<Rightarrow> False)
      in if signal = 1 \<and> b_position s = 0 then
           let entry_pr = price * (1 + slippage) in
           case int_of_quotient (b_cash s) entry_pr of
             Inl err \<Rightarrow> Inl err
           | Inr pos \<Rightarrow>
               if pos > 0 then
                 let cost = real_of_int pos * entry_pr;
                     commission_cost = cost * commission
                 in Inr (s1\<lparr>b_cash := b_cash s - (cost + commission_cost),
                             b_position := pos, b_entry_price := entry_pr,
                             b_entry_date := Some dt\<rparr>)
               else Inr (s1\<lparr>b_position := pos, b_entry_price := entry_pr\<rparr>)
         else if (signal = - 1 \<or> force_exit) \<and> b_position s > 0 then
           let pos = b_position s;
               entry_pr = b_entry_price s;
               exit_pr = price * (1 - slippage);
               proceeds = real_of_int pos * exit_pr;
               commission_cost = proceeds * commission;
               hold = (case b_entry_date s of Some d \<Rightarrow> days_between d dt | None \<Rightarrow> 0);
               lending_cost = (if st = Short \<and> b_entry_date s \<noteq> None
                               then real_of_int pos * entry_pr * lending_rate * (real_of_int hold / 365)
                               else 0);
               pft = (if st = Long
                      then (exit_pr - entry_pr) * real_of_int pos - commission_cost * 2
                      else (entry_pr - exit_pr) * real_of_int pos - commission_cost * 2 - lending_cost);
               pct = (pft / (real_of_int pos * entry_pr)) * 100;
               t = \<lparr>entry_date = (case b_entry_date s of Some d \<Rightarrow> d | None \<Rightarrow> 0),
                    exit_date = dt,
                    entry_price = entry_pr, exit_price = exit_pr,
                    shares = pos, profit = pft, profit_pct = pct,
                    holding_days = hold, forced_exit = force_exit,
                    within_target_period = (hold \<le> target_holding_days self),
                    exit_reason = (if force_exit then ForcedMax else Signal)\<rparr>
           in Inr (s1\<lparr>b_cash := b_cash s + (proceeds - commission_cost - lending_cost),
                       b_position := 0, b_entry_date := None,
                       b_trades := b_trades s @ [t]\<rparr>)
         else Inr s1)"

text \<open>
  The loop \<^verbatim>\<open>for i in range(len(df))\<close>; \<^verbatim>\<open>signals.iloc[i]\<close> beyond the series raises
  IndexError.
\<close>

fun bar_loop ::
  "engine \<Rightarrow> df \<Rightarrow> int list \<Rightarrow> real \<Rightarrow> real \<Rightarrow> real \<Rightarrow> strategy_type \<Rightarrow> nat list \<Rightarrow> bstate
     \<Rightarrow> py_error + bstate" where
  "bar_loop self df signals commission slippage lending_rate st [] s = Inr s"
| "bar_loop self df signals commission slippage lending_rate st (i # rest) s =
     (if length signals \<le> i then Inl IndexError
      else case bar_step self commission slippage lending_rate st
                  (Date (df ! i)) (Close (df ! i)) (signals ! i) s of
             Inl e \<Rightarrow> Inl e
           | Inr s' \<Rightarrow> bar_loop self df signals commission slippage lending_rate st rest s')"

text \<open>Lines 426-462: a position left at the end is closed at the last close, without slippage.\<close>

definition close_at_end ::
  "engine \<Rightarrow> df \<Rightarrow> real \<Rightarrow> real \<Rightarrow> strategy_type \<Rightarrow> bstate \<Rightarrow> trade list" where
  "close_at_end self df commission lending_rate st s =
     (if b_position s > 0 then
        let pos = b_position s;
            entry_pr = b_entry_price s;
            final_price = Close (last df);
            proceeds = real_of_int pos * final_price;
            commission_cost = proceeds * commission;
            hold = (case b_entry_date s of Some d \<Rightarrow> days_between d (Date (last df)) | None \<Rightarrow> 0);
            lending_cost = (if st = Short \<and> b_entry_date s \<noteq> None
                            then real_of_int pos * entry_pr * lending_rate * (real_of_int hold / 365)
                            else 0);
            pft = (if st = Long
                   then (final_price - entry_pr) * real_of_int pos - commission_cost * 2
                   else (entry_pr - final_price) * real_of_int pos - commission_cost * 2 - lending_cost);
            pct = (pft / (real_of_int pos * entry_pr)) * 100
        in b_trades s @
           [\<lparr>entry_date = (case b_entry_date s of Some d \<Rightarrow> d | None \<Rightarrow> 0),
             exit_date = Date (last df),
             entry_price = entry_pr, exit_price = final_price,
             shares = pos, profit = pft, profit_pct = pct,
             holding_days = hold, forced_exit = True,
             within_target_period = (hold \<le> target_holding_days self),
             exit_reason = EndOfData\<rparr>]
      else b_trades s)"

definition execute_trades ::
  "engine \<Rightarrow> df \<Rightarrow> int list \<Rightarrow> real \<Rightarrow> real \<Rightarrow> real \<Rightarrow> strategy_type
     \<Rightarrow> py_error + (trade list \<times> real list)" where
  "execute_trades self df signals commission slippage lending_rate st =
     (case bar_loop self df signals commission slippage lending_rate st [0..<length df]
             \<lparr>b_cash = initial_capital self, b_position = 0, b_entry_price = 0,
              b_entry_date = None, b_trades = [], b_equity = []\<rparr> of
        Inl e \<Rightarrow> Inl e
      | Inr s \<Rightarrow> Inr (close_at_end self df commission lending_rate st s, b_equity s))"


section \<open>Performance metrics\<close>

text \<open>
  \<^verbatim>\<open>PerformanceMetrics.calculate_sharpe_ratio\<close> (\<^verbatim>\<open>src/backtest/metrics.py\<close>).
  pandas' \<^verbatim>\<open>mean()\<close> of an empty series and \<^verbatim>\<open>std()\<close> (sample deviation, ddof = 1)
  of fewer than two points are NaN; NaN is the value \<open>None\<close>. A comparison with NaN is
  false and arithmetic on NaN is NaN.
\<close>

definition pd_mean :: "real list \<Rightarrow> real option" where
  "pd_mean xs = (if xs = [] then None else Some (sum_list xs / real (length xs)))"

definition pd_std :: "real list \<Rightarrow> real option" where
  "pd_std xs =
     (if length xs < 2 then None
      else let m = sum_list xs / real (length xs)
           in Some (sqrt (sum_list (map (\<lambda>x. (x - m)\<^sup>2) xs) / real (length xs - 1))))"

definition calculate_sharpe_ratio :: "real list \<Rightarrow> real \<Rightarrow> real option" where
  "calculate_sharpe_ratio returns risk_free_rate =
     (if length returns = 0 \<or> pd_std returns = Some 0 then Some 0
      else
        let mean_return = pd_mean returns;
            std_return = pd_std returns;
            annual_return = map_option (\<lambda>m. m * 252) mean_return;
            annual_std = map_option (\<lambda>s. s * sqrt 252) std_return
        in if annual_std = Some 0 then Some 0
           else (case (annual_return, annual_std) of
                   (Some a, Some sd) \<Rightarrow> Some ((a - risk_free_rate) / sd)
                 | _ \<Rightarrow> None))"


section \<open>Predicates used in the statements\<close>

text \<open>
  A trade record sits on the bars \<open>e\<close> (entry) and \<open>x\<close> (exit) of the frame: its dates are
  the dates of those bars and its prices are their closes after slippage, the entry at
  \<open>1 + slippage\<close> and the exit at \<open>1 - slippage\<close>.
\<close>

definition trade_at :: "df \<Rightarrow> real \<Rightarrow> nat \<Rightarrow> nat \<Rightarrow> trade \<Rightarrow> bool" where
  "trade_at df slippage e x t \<longleftrightarrow>
     e \<le> x \<and> x < length df
     \<and> entry_date t = Date (df ! e) \<and> exit_date t = Date (df ! x)
     \<and> entry_price t = Close (df ! e) * (1 + slippage)
     \<and> exit_price t = Close (df ! x) * (1 - slippage)"

text \<open>Loop invariant: every recorded trade sits on bars before the scan position.\<close>

definition spans_ok :: "df \<Rightarrow> real \<Rightarrow> vstate \<Rightarrow> bool" where
  "spans_ok df slippage s \<longleftrightarrow>
     v_current_pos s \<le> length df
     \<and> (\<forall>t\<in>set (v_trades s). \<exists>e x. trade_at df slippage e x t \<and> x < v_current_pos s)"


section \<open>Example data\<close>

text \<open>Daily bars with one price for high, low and close, and an engine with the default periods.\<close>

definition bar_at :: "int \<Rightarrow> real \<Rightarrow> bar" where
  "bar_at k p = \<lparr>Date = k * ns_per_day, High = p, Low = p, Close = p\<rparr>"

definition daily :: "real list \<Rightarrow> df" where
  "daily ps = map (\<lambda>(k, p). bar_at (int k) p) (zip [0..<length ps] ps)"

definition engine_of :: "real \<Rightarrow> bool \<Rightarrow> engine" where
  "engine_of capital trailing =
     \<lparr>initial_capital = capital, target_holding_days = 14, max_holding_days = 30,
      trailing_stop_enabled = trailing, trailing_stop_long = 1 / 10, trailing_stop_short = 1 / 10\<rparr>"

text \<open>Loop invariant for the order of the trades in time.\<close>

definition ordered_ok :: "df \<Rightarrow> real \<Rightarrow> vstate \<Rightarrow> bool" where
  "ordered_ok df slippage s \<longleftrightarrow>
     spans_ok df slippage s
     \<and> sorted_wrt (\<lambda>a b. exit_date a < entry_date b) (v_trades s)
     \<and> (\<forall>t\<in>set (v_trades s). entry_date t \<le> exit_date t)"


text \<open>A trade entered and closed on the last bar of the frame, at the end of the data.\<close>

definition same_bar_trade :: "engine \<Rightarrow> df \<Rightarrow> trade \<Rightarrow> bool" where
  "same_bar_trade self df t \<longleftrightarrow>
     entry_date t = Date (last df) \<and> exit_date t = Date (last df)
     \<and> holding_days t = 0 \<and> forced_exit t \<and> exit_reason t = EndOfData
     \<and> within_target_period t = (0 \<le> target_holding_days self)"


text \<open>
  A trade list is funded from a starting cash \<open>c\<close>: each position costs no more than the
  cash at its entry, the share count is not negative, and the cash stays non-negative
  after each settlement (cash moves by the profit of the trade).
\<close>

fun funded :: "real \<Rightarrow> trade list \<Rightarrow> bool" where
  "funded c [] = (0 \<le> c)"
| "funded c (t # ts) =
     (0 \<le> c \<and> 0 \<le> shares t \<and> real_of_int (shares t) * entry_price t \<le> c
      \<and> funded (c + profit t) ts)"

text \<open>Loop invariants for the cash of the two simulators.\<close>

definition cash_ok :: "real \<Rightarrow> vstate \<Rightarrow> bool" where
  "cash_ok c0 s \<longleftrightarrow>
     v_cash s = c0 + sum_list (map profit (v_trades s)) \<and> funded c0 (v_trades s)"

definition bar_ok :: "bstate \<Rightarrow> bool" where
  "bar_ok s \<longleftrightarrow> 0 \<le> b_cash s \<and> 0 \<le> b_position s \<and> (\<forall>v\<in>set (b_equity s). 0 \<le> v)"


text \<open>
  Runs on which the two simulators are compared. An iteration of the vectorised loop is
  clean when the candidate is skipped, or when its entry price is positive, it buys at
  least one share, its exit falls before the last bar, and an exit by signal does not fall
  on a bar where the maximum holding period is reached. A run is clean when every
  iteration is, each taken in the state the loop has reached.
\<close>

definition clean_step :: "engine \<Rightarrow> df \<Rightarrow> nat list \<Rightarrow> real \<Rightarrow> strategy_type \<Rightarrow> nat \<Rightarrow> vstate \<Rightarrow> bool" where
  "clean_step self df xc slippage st e s \<longleftrightarrow>
     e < v_current_pos s
     \<or> (let r = exit_for self df xc slippage st e
         in 0 < Close (df ! e) * (1 + slippage)
          \<and> (case position_size (v_cash s) (Close (df ! e) * (1 + slippage)) of
                Inl err \<Rightarrow> False
              | Inr pos \<Rightarrow> 0 < pos)
          \<and> fst r + 1 < length df
          \<and> (snd (snd r) \<noteq> Signal
              \<or> days_between (Date (df ! e)) (Date (df ! fst r)) < max_holding_days self))"

fun clean_run ::
  "engine \<Rightarrow> df \<Rightarrow> nat list \<Rightarrow> real \<Rightarrow> real \<Rightarrow> real \<Rightarrow> strategy_type \<Rightarrow> nat list \<Rightarrow> vstate \<Rightarrow> bool" where
  "clean_run self df xc c sl lr st [] s = True"
| "clean_run self df xc c sl lr st (e # rest) s =
     (clean_step self df xc sl st e s
      \<and> (case vec_step self df xc c sl lr st e s of
            Inl err \<Rightarrow> False
          | Inr s' \<Rightarrow> clean_run self df xc c sl lr st rest s'))"


section \<open>Properties of the classifier\<close>

lemma select_mask_map: "select_mask (map P xs) xs = filter P xs"
  by (induction xs) (simp_all add: select_mask_def)

lemma zip_map_self: "zip (map f xs) xs = map (\<lambda>x. (f x, x)) xs"
  by (induction xs) simp_all

lemma classify_trades_filter:
  "classify_trades self trades =
     (filter (\<lambda>t. holding_days t \<le> target_holding_days self) trades,
      filter (\<lambda>t. \<not> holding_days t \<le> target_holding_days self \<and> forced_exit t) trades,
      filter (\<lambda>t. \<not> holding_days t \<le> target_holding_days self \<and> \<not> forced_exit t) trades)"
proof (cases "trades = []")
  case True
  then show ?thesis by (simp add: classify_trades_def)
next
  case False
  have f: "map (\<lambda>(v, t). \<not> v \<and> forced_exit t)
             (zip (map (\<lambda>t. holding_days t \<le> target_holding_days self) trades) trades)
           = map (\<lambda>t. \<not> holding_days t \<le> target_holding_days self \<and> forced_exit t) trades"
    by (simp add: zip_map_self)
  have e: "map (\<lambda>(v, t). \<not> v \<and> \<not> forced_exit t)
             (zip (map (\<lambda>t. holding_days t \<le> target_holding_days self) trades) trades)
           = map (\<lambda>t. \<not> holding_days t \<le> target_holding_days self \<and> \<not> forced_exit t) trades"
    by (simp add: zip_map_self)
  show ?thesis
    using False unfolding classify_trades_def Let_def f e
    by (simp add: select_mask_map)
qed

lemma three_way_length:
  "length (filter P xs) + length (filter (\<lambda>x. \<not> P x \<and> Q x) xs)
     + length (filter (\<lambda>x. \<not> P x \<and> \<not> Q x) xs) = length xs"
  by (induction xs) auto

lemma three_way_mset:
  "mset (filter P xs) + mset (filter (\<lambda>x. \<not> P x \<and> Q x) xs)
     + mset (filter (\<lambda>x. \<not> P x \<and> \<not> Q x) xs) = mset xs"
  by (induction xs) auto

text \<open>
  C5. The classifier is a total partition: the valid bucket holds exactly the trades with
  holding_days at most target_days, the forced bucket the remaining trades with forced_exit
  set, the excluded bucket the remaining trades without it, each in the original order;
  the three buckets together are a rearrangement of the trade list (every trade, with its
  multiplicity, lands in exactly one bucket), so their sizes add up to the number of trades.
\<close>

theorem classify_trades_partition:
  "(case classify_trades self trades of (valid, forced, excluded) \<Rightarrow>
      valid = filter (\<lambda>t. holding_days t \<le> target_holding_days self) trades
    \<and> forced = filter (\<lambda>t. target_holding_days self < holding_days t \<and> forced_exit t) trades
    \<and> excluded = filter (\<lambda>t. target_holding_days self < holding_days t \<and> \<not> forced_exit t) trades
    \<and> mset valid + mset forced + mset excluded = mset trades
    \<and> length valid + length forced + length excluded = length trades)"
proof -
  have lt: "(\<lambda>t. \<not> holding_days t \<le> target_holding_days self \<and> forced_exit t)
          = (\<lambda>t. target_holding_days self < holding_days t \<and> forced_exit t)"
    by (auto simp: fun_eq_iff)
  have lt': "(\<lambda>t. \<not> holding_days t \<le> target_holding_days self \<and> \<not> forced_exit t)
          = (\<lambda>t. target_holding_days self < holding_days t \<and> \<not> forced_exit t)"
    by (auto simp: fun_eq_iff)
  show ?thesis
    unfolding classify_trades_filter prod.case
    using three_way_length [of "\<lambda>t. holding_days t \<le> target_holding_days self" trades forced_exit]
          three_way_mset [of "\<lambda>t. holding_days t \<le> target_holding_days self" trades forced_exit]
    by (simp add: lt lt')
qed


section \<open>Index bounds of the exit candidates\<close>

lemma length_accumulate [simp]: "length (accumulate f xs) = length xs"
  by (induction f xs rule: accumulate.induct) simp_all

lemma argmax_mask_less: "any_mask m \<Longrightarrow> argmax_mask m < length m"
  by (induction m) (auto simp: argmax_mask_def any_mask_def)

lemma trailing_stop_idx_bounds:
  assumes "trailing_stop_idx self df st e p = Some t"
  shows "e < t \<and> t < length df"
proof -
  from assms have en: "trailing_stop_enabled self" "e + 1 < length df"
    by (auto simp: trailing_stop_idx_def split: if_splits)
  show ?thesis
  proof (cases "st = Long")
    case True
    define hm where "hm = map (\<lambda>(p, s). p < s) (zip (drop (e + 1) (map Close df))
        (map (\<lambda>c. c * (1 - trailing_stop_long self))
           (accumulate max (map (\<lambda>h. max h p) (drop (e + 1) (map High df))))))"
    from assms en True have t: "any_mask hm" "t = e + 1 + argmax_mask hm"
      by (auto simp: trailing_stop_idx_def Let_def hm_def split: if_splits)
    have "length hm = length df - (e + 1)" by (simp add: hm_def)
    with argmax_mask_less [OF t(1)] t(2) show ?thesis by simp
  next
    case False
    define hm where "hm = map (\<lambda>(p, s). p > s) (zip (drop (e + 1) (map Close df))
        (map (\<lambda>c. c * (1 + trailing_stop_short self))
           (accumulate min (map (\<lambda>l. min l p) (drop (e + 1) (map Low df))))))"
    from assms en False have t: "any_mask hm" "t = e + 1 + argmax_mask hm"
      by (auto simp: trailing_stop_idx_def Let_def hm_def split: if_splits)
    have "length hm = length df - (e + 1)" by (simp add: hm_def)
    with argmax_mask_less [OF t(1)] t(2) show ?thesis by simp
  qed
qed

lemma forced_exit_idx_bounds:
  assumes "forced_exit_idx self df e = Some f"
  shows "e < f \<and> f < length df"
proof -
  define se where "se = min (int e + max_holding_days self + 2) (int (length df))"
  define fm where "fm = map (\<lambda>d. d \<ge> max_holding_days self)
     (map (\<lambda>d. (d - Date (df ! e)) div ns_per_day) (slice (e + 1) (nat se) (map Date df)))"
  from assms have c: "int e + 1 < se" "any_mask fm" "f = e + 1 + argmax_mask fm"
    by (auto simp: forced_exit_idx_def Let_def se_def fm_def split: if_splits)
  have "length fm = nat se - (e + 1)" using c(1)
    by (simp add: fm_def slice_def se_def)
  moreover have "nat se \<le> length df" by (simp add: se_def)
  ultimately show ?thesis using argmax_mask_less [OF c(2)] c(3) by simp
qed

lemma valid_exits_dropWhile:
  "drop (searchsorted_right xc e) xc = dropWhile (\<lambda>x. x \<le> e) xc"
  by (simp add: searchsorted_right_def dropWhile_eq_drop)

lemma signal_exit_idx_ge:
  assumes "e < n"
  shows "e \<le> signal_exit_idx n (drop (searchsorted_right xc e) xc)"
proof (cases "dropWhile (\<lambda>x. x \<le> e) xc")
  case Nil
  with assms show ?thesis unfolding valid_exits_dropWhile signal_exit_idx_def Nil by simp
next
  case (Cons v vs)
  then have "\<not> v \<le> e" using hd_dropWhile [of "\<lambda>x. x \<le> e" xc] by simp
  then show ?thesis unfolding valid_exits_dropWhile signal_exit_idx_def Cons by simp
qed

lemma signal_exit_idx_less:
  assumes "e < n" "\<forall>x\<in>set xc. x < n"
  shows "signal_exit_idx n (drop (searchsorted_right xc e) xc) < n"
proof (cases "dropWhile (\<lambda>x. x \<le> e) xc")
  case Nil
  with assms show ?thesis unfolding valid_exits_dropWhile signal_exit_idx_def Nil by simp
next
  case (Cons v vs)
  then have "v \<in> set xc" by (metis list.set_intros(1) set_dropWhileD)
  with assms show ?thesis unfolding valid_exits_dropWhile signal_exit_idx_def Cons by simp
qed

lemma resolve_exit_idx:
  "fst (resolve_exit n ve ts fo) = Min (insert (signal_exit_idx n ve) (set_option ts \<union> set_option fo))"
  by (cases ts; cases fo) (auto simp: resolve_exit_def Let_def min_def)

lemma exit_for_ge:
  assumes "e < length df"
  shows "e \<le> fst (exit_for self df xc sl st e)"
proof -
  let ?ts = "trailing_stop_idx self df st e (Close (df ! e) * (1 + sl))"
  let ?fo = "forced_exit_idx self df e"
  let ?sg = "signal_exit_idx (length df) (drop (searchsorted_right xc e) xc)"
  have "\<forall>x \<in> insert ?sg (set_option ?ts \<union> set_option ?fo). e \<le> x"
    using signal_exit_idx_ge [OF assms, of xc]
    by (auto dest!: trailing_stop_idx_bounds forced_exit_idx_bounds)
  then show ?thesis
    unfolding exit_for_def Let_def resolve_exit_idx by simp
qed

lemma exit_for_le_signal:
  "fst (exit_for self df xc sl st e) \<le> signal_exit_idx (length df) (drop (searchsorted_right xc e) xc)"
  unfolding exit_for_def Let_def resolve_exit_idx by simp

lemma exit_for_less:
  assumes "e < length df" "\<forall>x\<in>set xc. x < length df"
  shows "fst (exit_for self df xc sl st e) < length df"
  using exit_for_le_signal [of self df xc sl st e] signal_exit_idx_less [OF assms] by simp


section \<open>The loop of the vectorised simulator\<close>

lemma vec_step_Inr_cases:
  assumes "vec_step self df xc c sl lr st e s = Inr s'"
  obtains
    (skip) "e < v_current_pos s" "s' = s"
  | (zero) "v_current_pos s \<le> e" "e < length df"
           "fst (exit_for self df xc sl st e) < length df"
           "position_size (v_cash s) (Close (df ! e) * (1 + sl)) = Inr 0"
           "s' = s\<lparr>v_current_pos := fst (exit_for self df xc sl st e) + 1\<rparr>"
  | (trade) pos where "v_current_pos s \<le> e" "e < length df"
           "fst (exit_for self df xc sl st e) < length df"
           "position_size (v_cash s) (Close (df ! e) * (1 + sl)) = Inr pos"
           "s' = \<lparr>v_cash = cash_after df c sl lr st e (fst (exit_for self df xc sl st e))
                             pos (v_cash s),
                  v_current_pos = fst (exit_for self df xc sl st e) + 1,
                  v_trades = v_trades s @ [make_trade self df c sl lr st e (exit_for self df xc sl st e)
                             pos]\<rparr>"
           "pos \<noteq> 0"
  using assms unfolding vec_step_def Let_def
  by (auto split: if_splits sum.splits)

lemma make_trade_at:
  assumes "e < length df" "fst r < length df" "e \<le> fst r"
  shows "trade_at df sl e (fst r) (make_trade self df c sl lr st e r pos)"
  using assms by (simp add: trade_at_def make_trade_def Let_def)

lemma vec_step_spans_ok:
  assumes "vec_step self df xc c sl lr st e s = Inr s'" "spans_ok df sl s"
  shows "spans_ok df sl s'"
  using assms(1)
proof (cases rule: vec_step_Inr_cases)
  case skip
  with assms(2) show ?thesis by simp
next
  case zero
  have "v_current_pos s \<le> fst (exit_for self df xc sl st e)"
    using exit_for_ge [OF zero(2), of self xc sl st] zero(1) by simp
  with assms(2) zero show ?thesis
    by (fastforce simp: spans_ok_def)
next
  case (trade pos)
  let ?x = "fst (exit_for self df xc sl st e)"
  have ge: "e \<le> ?x" using exit_for_ge [OF trade(2)] .
  have new: "trade_at df sl e ?x (make_trade self df c sl lr st e (exit_for self df xc sl st e) pos)"
    using make_trade_at [OF trade(2) trade(3) ge] .
  have old: "\<forall>t\<in>set (v_trades s). \<exists>e' x'. trade_at df sl e' x' t \<and> x' < ?x + 1"
    using assms(2) trade(1) ge by (fastforce simp: spans_ok_def)
  show ?thesis
    unfolding spans_ok_def trade(5) using trade(3) new old by auto
qed

lemma vec_loop_spans_ok:
  assumes "vec_loop self df xc c sl lr st cands s = Inr s'" "spans_ok df sl s"
  shows "spans_ok df sl s'"
  using assms
proof (induction cands arbitrary: s)
  case Nil
  then show ?case by simp
next
  case (Cons e rest)
  then show ?case
    by (auto split: sum.splits dest: vec_step_spans_ok)
qed


section \<open>Properties of whole runs of the vectorised simulator\<close>

lemma where_eq_less: "\<forall>i\<in>set (where_eq arr v). i < length arr"
  by (simp add: where_eq_def)

lemma vec_step_nonpositive_price:
  assumes "e < length df" "\<forall>x\<in>set xc. x < length df"
    and "Close (df ! e) \<le> 0" "- 1 \<le> sl"
  shows "\<exists>s'. vec_step self df xc c sl lr st e s = Inr s' \<and> v_trades s' = v_trades s"
proof -
  have "Close (df ! e) * (1 + sl) \<le> 0"
    using assms(3,4) by (simp add: mult_nonpos_nonneg)
  then have "position_size (v_cash s) (Close (df ! e) * (1 + sl)) = Inr 0"
    by (simp add: position_size_def)
  with exit_for_less [OF assms(1,2), of self sl st] assms(1) show ?thesis
    by (simp add: vec_step_def Let_def)
qed

lemma vec_loop_nonpositive_prices:
  assumes "- 1 \<le> sl" "\<forall>x\<in>set xc. x < length df"
  shows "\<forall>e\<in>set cands. e < length df \<and> Close (df ! e) \<le> 0
         \<Longrightarrow> \<exists>s'. vec_loop self df xc c sl lr st cands s = Inr s' \<and> v_trades s' = v_trades s"
proof (induction cands arbitrary: s)
  case Nil
  then show ?case by simp
next
  case (Cons e rest)
  have e: "e < length df" "Close (df ! e) \<le> 0" using Cons.prems by simp_all
  from vec_step_nonpositive_price [OF e(1) assms(2) e(2) assms(1)] obtain s1 where
    s1: "vec_step self df xc c sl lr st e s = Inr s1" "v_trades s1 = v_trades s" by blast
  have "\<forall>e\<in>set rest. e < length df \<and> Close (df ! e) \<le> 0" using Cons.prems by simp
  from Cons.IH [OF this, of s1] s1 show ?case by simp
qed

lemma spans_ok_init: "spans_ok df sl \<lparr>v_cash = c0, v_current_pos = 0, v_trades = []\<rparr>"
  by (simp add: spans_ok_def)

lemma execute_trades_vectorized_Inr:
  assumes "execute_trades_vectorized self df signals c sl lr st = Inr (trades, eq)" "df \<noteq> []"
  obtains s where
    "vec_loop self df (where_eq signals (- 1)) c sl lr st (where_eq signals 1)
        \<lparr>v_cash = initial_capital self, v_current_pos = 0, v_trades = []\<rparr> = Inr s"
    "trades = v_trades s"
    "eq = calculate_equity_from_trades_vectorized self df trades st"
  using assms unfolding execute_trades_vectorized_def Let_def
  by (auto split: sum.splits if_splits)

text \<open>
  C3 (amended). The simulator does not validate its input and does not fail fast. When
  every bar that carries an Enter signal has a close that is zero or negative, the run
  raises no error, whatever the other prices are, whatever the order of the timestamps
  (taken within the range in which pandas can subtract them) and whatever the signal
  series, as long as it is not longer than the frame, for any slippage from -1 upwards:
  every Enter is skipped with a share count of 0, and the run returns the empty trade list
  and an equity trajectory flat at the initial capital.
\<close>

theorem nonpositive_prices_not_rejected:
  assumes "\<forall>e\<in>set (where_eq signals 1). Close (df ! e) \<le> 0"
    and "\<forall>a\<in>set df. \<forall>b\<in>set df. \<bar>Date b - Date a\<bar> < 2 ^ 63"
    and "- 1 \<le> slippage"
    and "length signals \<le> length df"
  shows "execute_trades_vectorized self df signals commission slippage lending_rate st
           = Inr ([], replicate (length df) (initial_capital self))"
proof (cases "df = []")
  case True
  then show ?thesis by (simp add: execute_trades_vectorized_def)
next
  case False
  have a: "\<forall>e\<in>set (where_eq signals 1). e < length df \<and> Close (df ! e) \<le> 0"
    using where_eq_less [of signals 1] assms(1,4) by auto
  have b: "\<forall>e\<in>set (where_eq signals (- 1)). e < length df"
    using where_eq_less [of signals "- 1"] assms(4) by auto
  from vec_loop_nonpositive_prices [OF assms(3) b a] obtain s' where
    "vec_loop self df (where_eq signals (- 1)) commission slippage lending_rate st (where_eq signals 1)
        \<lparr>v_cash = initial_capital self, v_current_pos = 0, v_trades = []\<rparr> = Inr s'"
    "v_trades s' = []"
    by fastforce
  with False show ?thesis
    by (simp add: execute_trades_vectorized_def calculate_equity_from_trades_vectorized_def)
qed

theorem nonpositive_prices_not_rejected_witness:
  "list_all (\<lambda>e. Close ([bar_at 9 0, bar_at 2 120, bar_at 7 (- 5)] ! e) \<le> 0)
        (where_eq [1, - 1, 1] 1)
   \<and> list_all (\<lambda>a. list_all (\<lambda>b. \<bar>Date b - Date a\<bar> < 2 ^ 63)
                       [bar_at 9 0, bar_at 2 120, bar_at 7 (- 5)])
        [bar_at 9 0, bar_at 2 120, bar_at 7 (- 5)]
   \<and> - 1 \<le> (1 / 4 :: real)
   \<and> length [1, - 1, 1 :: int] \<le> length [bar_at 9 0, bar_at 2 120, bar_at 7 (- 5)]
   \<and> execute_trades_vectorized (engine_of 1000 True) [bar_at 9 0, bar_at 2 120, bar_at 7 (- 5)]
        [1, - 1, 1] (1 / 4) (1 / 4) (1 / 4) Short
     = Inr ([], replicate (length [bar_at 9 0, bar_at 2 120, bar_at 7 (- 5)])
                  (initial_capital (engine_of 1000 True)))"
proof -
  let ?df = "[bar_at 9 0, bar_at 2 120, bar_at 7 (- 5)]"
  let ?sg = "[1, - 1, 1 :: int]"
  have l1: "list_all (\<lambda>e. Close (?df ! e) \<le> 0) (where_eq ?sg 1)" by code_simp
  have l2: "list_all (\<lambda>a. list_all (\<lambda>b. \<bar>Date b - Date a\<bar> < 2 ^ 63) ?df) ?df" by code_simp
  have h1: "\<forall>e\<in>set (where_eq ?sg 1). Close (?df ! e) \<le> 0" using l1 unfolding list_all_iff .
  have h2: "\<forall>a\<in>set ?df. \<forall>b\<in>set ?df. \<bar>Date b - Date a\<bar> < 2 ^ 63" using l2 unfolding list_all_iff .
  have h3: "- 1 \<le> (1 / 4 :: real)" by simp
  have h4: "length ?sg \<le> length ?df" by simp
  from nonpositive_prices_not_rejected [OF h1 h2 h3 h4, of "engine_of 1000 True" "1 / 4" "1 / 4" Short]
       l1 l2 h3 h4
  show ?thesis by blast
qed

text \<open>
  C3 as stated fails: a frame with a zero and a negative close, timestamps running
  backwards and a signal series shorter than the frame is simulated without any error
  (the entry at the zero close is skipped with a share count of 0).
\<close>

theorem malformed_input_accepted:
  "execute_trades_vectorized (engine_of 1000 False) [bar_at 5 0, bar_at 3 (- 5)] [1] 0 0 0 Long
     = Inr ([], [1000, 1000])"
  by code_simp

text \<open>
  Where the simulator does raise, the error comes from an array access or from the
  conversion of the share count, not from a check of the input: an Enter beyond the end of
  the frame raises IndexError, and a positive entry price so small (here the smallest
  positive double) that the quotient cash / price is no longer finite raises OverflowError
  in the iteration that considers it.
\<close>

lemma enter_beyond_frame_raises:
  "execute_trades_vectorized (engine_of 1000 False) (daily [100, 100]) [0, 0, 1] 0 0 0 Long
     = Inl IndexError"
  by code_simp

lemma float_inf_eq: "float_inf = 2 ^ 1024 - 2 ^ 970"
  by (simp add: float_inf_def)

lemma tiny_price_overflows:
  "position_size 1000 (1 / 2 ^ 1074 * (1 + 0)) = Inl OverflowError"
  by (simp add: position_size_def int_of_quotient_def float_inf_eq)

lemma vec_step_share_count_raises:
  assumes "v_current_pos s \<le> e" "e < length df" "\<forall>x\<in>set xc. x < length df"
    and "position_size (v_cash s) (Close (df ! e) * (1 + sl)) = Inl err"
  shows "vec_step self df xc c sl lr st e s = Inl err"
  using exit_for_less [OF assms(2,3), of self sl st] assms(1,2,4)
  by (simp add: vec_step_def Let_def)

text \<open>
  On timestamps that are not ascending the position found by the bisection is not the
  number of leading smaller elements: in 5, 3, 7 the key 5 is placed at 2.
\<close>

lemma searchsorted_not_ascending:
  "searchsorted [5, 3, 7] 5 = 2 \<and> searchsorted [5, 3, 7] 3 = 0 \<and> searchsorted [3, 5, 7] 5 = 1"
  by code_simp

text \<open>
  In every run of the vectorised simulator, Long or Short, each trade is entered at the
  close of its entry bar times (1 + slippage) and exited at the close of its exit bar
  times (1 - slippage): the direction is not looked at.
\<close>

lemma vectorized_trade_prices:
  assumes "execute_trades_vectorized self df signals c sl lr st = Inr (trades, equity)"
  shows "\<forall>t\<in>set trades. \<exists>e<length df. \<exists>x<length df. trade_at df sl e x t"
proof (cases "df = []")
  case True
  with assms show ?thesis by (simp add: execute_trades_vectorized_def)
next
  case False
  from assms False obtain s where s:
    "vec_loop self df (where_eq signals (- 1)) c sl lr st (where_eq signals 1)
        \<lparr>v_cash = initial_capital self, v_current_pos = 0, v_trades = []\<rparr> = Inr s"
    "trades = v_trades s"
    by (rule execute_trades_vectorized_Inr)
  have ok: "spans_ok df sl s" using vec_loop_spans_ok [OF s(1) spans_ok_init] .
  show ?thesis
  proof
    fix t assume "t \<in> set trades"
    with ok obtain e x where ex: "trade_at df sl e x t"
      by (auto simp: spans_ok_def s(2))
    then have "e < length df" "x < length df" by (auto simp: trade_at_def)
    with ex show "\<exists>e<length df. \<exists>x<length df. trade_at df sl e x t" by blast
  qed
qed

text \<open>
  The per-bar simulator sets the same prices, whatever the direction: an entry is priced
  at the close times (1 + slippage), and a trade closed by a signal or by the maximum
  holding period exits at the close times (1 - slippage). (A position left at the end of
  the data is closed at the raw close, see \<open>close_at_end\<close>.)
\<close>

lemma bar_step_entry_price:
  assumes "bar_step self c sl lr st dt price 1 s = Inr s'" "b_position s = 0"
  shows "b_entry_price s' = price * (1 + sl)"
  using assms by (auto simp: bar_step_def Let_def split: if_splits sum.splits)

lemma bar_step_exit_price:
  assumes "bar_step self c sl lr st dt price signal s = Inr s'" "b_trades s' \<noteq> b_trades s"
  shows "\<exists>t. b_trades s' = b_trades s @ [t]
            \<and> entry_price t = b_entry_price s \<and> exit_price t = price * (1 - sl)"
  using assms by (auto simp: bar_step_def Let_def split: if_splits sum.splits)

text \<open>
  C7. For a Short the claim asks for an entry at close times (1 - slippage) and an exit at
  close times (1 + slippage), so that slippage is a cost in both directions. Both
  simulators apply the Long prices to a Short as well. With a slippage of 1/4 and all
  closes at 100, a Short is entered at 125 and exited at 75, where the claim asks for 75
  and 125, and the slippage alone is booked as a profit of 400 on 8 shares.
\<close>

theorem short_slippage_booked_as_gain:
  "execute_trades_vectorized (engine_of 1100 False) (daily [100, 100, 100]) [1, - 1, 0]
       0 (1 / 4) 0 Short
     = Inr ([\<lparr>entry_date = 0, exit_date = 86400000000000, entry_price = 125,
              exit_price = 75, shares = 8, profit = 400, profit_pct = 40,
              holding_days = 1, forced_exit = False,
              within_target_period = True, exit_reason = Signal\<rparr>],
            [1300, 1300, 1500])
   \<and> execute_trades (engine_of 1100 False) (daily [100, 100, 100]) [1, - 1, 0]
       0 (1 / 4) 0 Short
     = Inr ([\<lparr>entry_date = 0, exit_date = 86400000000000, entry_price = 125,
              exit_price = 75, shares = 8, profit = 400, profit_pct = 40,
              holding_days = 1, forced_exit = False,
              within_target_period = True, exit_reason = Signal\<rparr>],
            [1100, 300, 700])
   \<and> (125 :: real) \<noteq> 100 * (1 - 1 / 4) \<and> (75 :: real) \<noteq> 100 * (1 + 1 / 4)"
  by code_simp

lemma dates_mono:
  assumes "sorted_wrt (<) (map Date df)" "i \<le> j" "j < length df"
  shows "Date (df ! i) \<le> Date (df ! j)"
proof (cases "i = j")
  case True
  then show ?thesis by simp
next
  case False
  with assms have ij: "i < j" by simp
  then have "i < length df" using assms(3) by simp
  with sorted_wrt_nth_less [OF assms(1) ij] assms(3) show ?thesis by simp
qed

lemma dates_strict:
  assumes "sorted_wrt (<) (map Date df)" "i < j" "j < length df"
  shows "Date (df ! i) < Date (df ! j)"
proof -
  have "i < length df" using assms(2,3) by simp
  with sorted_wrt_nth_less [OF assms(1) assms(2)] assms(3) show ?thesis by simp
qed

lemma vec_step_ordered_ok:
  assumes "vec_step self df xc c sl lr st e s = Inr s'" "ordered_ok df sl s"
    and srt: "sorted_wrt (<) (map Date df)"
  shows "ordered_ok df sl s'"
proof -
  have sp: "spans_ok df sl s'" using vec_step_spans_ok [OF assms(1)] assms(2)
    by (simp add: ordered_ok_def)
  from assms(1) show ?thesis
  proof (cases rule: vec_step_Inr_cases)
    case skip
    with assms(2) show ?thesis by simp
  next
    case zero
    with assms(2) sp show ?thesis by (simp add: ordered_ok_def)
  next
    case (trade pos)
    let ?x = "fst (exit_for self df xc sl st e)"
    let ?t = "make_trade self df c sl lr st e (exit_for self df xc sl st e) pos"
    have ge: "e \<le> ?x" using exit_for_ge [OF trade(2)] .
    have at: "trade_at df sl e ?x ?t" using make_trade_at [OF trade(2) trade(3) ge] .
    have own: "entry_date ?t \<le> exit_date ?t"
      using at dates_mono [OF srt ge trade(3)] by (simp add: trade_at_def)
    have before: "\<forall>a\<in>set (v_trades s). exit_date a < entry_date ?t"
    proof
      fix a assume "a \<in> set (v_trades s)"
      with assms(2) obtain e' x' where a: "trade_at df sl e' x' a" "x' < v_current_pos s"
        by (auto simp: ordered_ok_def spans_ok_def)
      then have "x' < e" using trade(1) by simp
      from dates_strict [OF srt this trade(2)] a(1) at
      show "exit_date a < entry_date ?t" by (simp add: trade_at_def)
    qed
    show ?thesis
      using sp assms(2) own before unfolding ordered_ok_def trade(5)
      by (auto simp: sorted_wrt_append)
  qed
qed

lemma vec_loop_ordered_ok:
  assumes "vec_loop self df xc c sl lr st cands s = Inr s'" "ordered_ok df sl s"
    and srt: "sorted_wrt (<) (map Date df)"
  shows "ordered_ok df sl s'"
  using assms(1,2)
proof (induction cands arbitrary: s)
  case Nil
  then show ?case by simp
next
  case (Cons e rest)
  then show ?case
    by (auto split: sum.splits dest: vec_step_ordered_ok [OF _ _ srt])
qed

text \<open>
  C4. On a frame with strictly increasing timestamps, the trades of a run come in the
  order of their entry time, each trade exits no earlier than it enters, and every trade
  exits before the next one enters: exit_timestamp(trade i) \<open>\<le>\<close> entry_timestamp(trade i+1)
  (in fact strictly, for every later trade), so no bar carries two open positions.
\<close>

theorem vectorized_trades_never_overlap:
  assumes "sorted_wrt (<) (map Date df)"
    and "execute_trades_vectorized self df signals c sl lr st = Inr (trades, equity)"
  shows "sorted_wrt (\<lambda>a b. exit_date a < entry_date b) trades
       \<and> sorted_wrt (\<lambda>a b. entry_date a < entry_date b) trades
       \<and> (\<forall>t\<in>set trades. entry_date t \<le> exit_date t)
       \<and> (\<forall>i. i + 1 < length trades \<longrightarrow> exit_date (trades ! i) \<le> entry_date (trades ! (i + 1)))"
proof (cases "df = []")
  case True
  with assms(2) show ?thesis by (simp add: execute_trades_vectorized_def)
next
  case False
  from assms(2) False obtain s where s:
    "vec_loop self df (where_eq signals (- 1)) c sl lr st (where_eq signals 1)
        \<lparr>v_cash = initial_capital self, v_current_pos = 0, v_trades = []\<rparr> = Inr s"
    "trades = v_trades s"
    by (rule execute_trades_vectorized_Inr)
  have "ordered_ok df sl \<lparr>v_cash = initial_capital self, v_current_pos = 0, v_trades = []\<rparr>"
    by (simp add: ordered_ok_def spans_ok_def)
  from vec_loop_ordered_ok [OF s(1) this assms(1)]
  have ok: "sorted_wrt (\<lambda>a b. exit_date a < entry_date b) trades"
       "\<forall>t\<in>set trades. entry_date t \<le> exit_date t"
    by (simp_all add: ordered_ok_def s(2))
  have ent: "sorted_wrt (\<lambda>a b. entry_date a < entry_date b) trades"
    by (rule sorted_wrt_mono_rel [OF _ ok(1)]) (use ok(2) in fastforce)
  have cons: "\<forall>i. i + 1 < length trades \<longrightarrow> exit_date (trades ! i) \<le> entry_date (trades ! (i + 1))"
    using sorted_wrt_nth_less [OF ok(1)] by (simp add: less_imp_le)
  from ok ent cons show ?thesis by simp
qed

theorem vectorized_trades_never_overlap_witness:
  "sorted_wrt (<) (map Date (daily [100, 110, 110, 100, 120, 120]))
   \<and> execute_trades_vectorized (engine_of 1000 True) (daily [100, 110, 110, 100, 120, 120])
        [1, - 1, 0, 1, - 1, 0] 0 0 0 Long
     = Inr ([\<lparr>entry_date = 0, exit_date = 86400000000000, entry_price = 100,
              exit_price = 110, shares = 10, profit = 100, profit_pct = 10,
              holding_days = 1, forced_exit = False,
              within_target_period = True, exit_reason = Signal\<rparr>,
             \<lparr>entry_date = 259200000000000, exit_date = 345600000000000,
              entry_price = 100, exit_price = 120, shares = 11, profit = 220,
              profit_pct = 20, holding_days = 1, forced_exit = False,
              within_target_period = True, exit_reason = Signal\<rparr>],
            [1100, 1100, 1100, 1100, 1320, 1320])
   \<and> (86400000000000 :: int) \<le> 259200000000000"
proof -
  have h1: "sorted_wrt (<) (map Date (daily [100, 110, 110, 100, 120, 120]))" by code_simp
  have h2: "execute_trades_vectorized (engine_of 1000 True) (daily [100, 110, 110, 100, 120, 120])
        [1, - 1, 0, 1, - 1, 0] 0 0 0 Long
     = Inr ([\<lparr>entry_date = 0, exit_date = 86400000000000, entry_price = 100,
              exit_price = 110, shares = 10, profit = 100, profit_pct = 10,
              holding_days = 1, forced_exit = False,
              within_target_period = True, exit_reason = Signal\<rparr>,
             \<lparr>entry_date = 259200000000000, exit_date = 345600000000000,
              entry_price = 100, exit_price = 120, shares = 11, profit = 220,
              profit_pct = 20, holding_days = 1, forced_exit = False,
              within_target_period = True, exit_reason = Signal\<rparr>],
            [1100, 1100, 1100, 1100, 1320, 1320])"
    by code_simp
  show ?thesis
    using h1 h2 vectorized_trades_never_overlap [OF h1 h2] by simp
qed


section \<open>Resolution of the exit triggers\<close>






lemma make_trade_exit [simp]:
  "exit_date (make_trade self df c sl lr st e r pos) = Date (df ! fst r)"
  "exit_reason (make_trade self df c sl lr st e r pos) = snd (snd r)"
  "forced_exit (make_trade self df c sl lr st e r pos) = fst (snd r)"
  by (simp_all add: make_trade_def Let_def)




section \<open>An entry that buys no share\<close>

text \<open>
  C6. With a capital of 100 the Enter on bar 0 (close 150) buys no share. The vectorised
  simulator then moves its scan position past the exit it had computed for that entry
  (bar 3), so the Enter on bar 1 (close 50, two shares affordable) is never considered and
  the run has no trade; the per-bar simulator, which goes on at the next bar, opens the
  position on bar 1.
\<close>

theorem zero_share_enter_blocks_later_enter:
  "execute_trades_vectorized (engine_of 100 False) (daily [150, 50, 50, 50, 50]) [1, 1, 0, - 1, 0]
       0 0 0 Long
     = Inr ([], [100, 100, 100, 100, 100])
   \<and> position_size 100 (50 * (1 + 0)) = Inr 2
   \<and> execute_trades (engine_of 100 False) (daily [150, 50, 50, 50, 50]) [1, 1, 0, - 1, 0]
       0 0 0 Long
     = Inr ([\<lparr>entry_date = 86400000000000, exit_date = 259200000000000, entry_price = 50,
              exit_price = 50, shares = 2, profit = 0, profit_pct = 0, holding_days = 2,
              forced_exit = False, within_target_period = True, exit_reason = Signal\<rparr>],
            [100, 100, 100, 100, 100])"
  by code_simp

section \<open>Sharpe ratio\<close>

text \<open>
  C8. For a series of exactly one return the sample deviation is NaN, neither guard of
  \<^verbatim>\<open>calculate_sharpe_ratio\<close> catches it, and the result is NaN rather than 0.
\<close>

theorem sharpe_of_single_return_is_nan:
  "calculate_sharpe_ratio [r] rf = None"
  by (simp add: calculate_sharpe_ratio_def pd_std_def pd_mean_def)

text \<open>
  From two points on the function is the stated quotient, and it is 0 for the empty series
  and for a deviation of 0.
\<close>

lemma sharpe_ratio_formula:
  assumes "2 \<le> length returns" "pd_std returns = Some sd" "sd \<noteq> 0" "pd_mean returns = Some m"
  shows "calculate_sharpe_ratio returns 0 = Some ((m * 252) / (sd * sqrt 252))"
  using assms by (auto simp: calculate_sharpe_ratio_def)

lemma sharpe_ratio_degenerate:
  "calculate_sharpe_ratio [] rf = Some 0"
  "pd_std returns = Some 0 \<Longrightarrow> calculate_sharpe_ratio returns rf = Some 0"
  by (simp_all add: calculate_sharpe_ratio_def)


section \<open>An entry on the last bar\<close>

lemma where_eq_snoc:
  assumes "arr \<noteq> []"
  shows "where_eq arr v = where_eq (butlast arr) v @ (if last arr = v then [length arr - 1] else [])"
proof -
  let ?n = "length arr - 1"
  have n: "length arr = Suc ?n" using assms by simp
  have up: "[0..<length arr] = [0..<?n] @ [?n]" by (subst n) simp
  have pre: "filter (\<lambda>i. arr ! i = v) [0..<?n] = filter (\<lambda>i. butlast arr ! i = v) [0..<?n]"
    by (rule filter_cong) (simp_all add: nth_butlast)
  have l: "arr ! ?n = last arr" using assms by (simp add: last_conv_nth)
  have "filter (\<lambda>i. arr ! i = v) [?n] = (if last arr = v then [?n] else [])"
    unfolding filter.simps l by simp
  then show ?thesis
    unfolding where_eq_def up filter_append pre length_butlast by simp
qed

lemma vec_loop_append:
  "vec_loop self df xc c sl lr st (xs @ ys) s =
     (case vec_loop self df xc c sl lr st xs s of
        Inl e \<Rightarrow> Inl e
      | Inr s1 \<Rightarrow> vec_loop self df xc c sl lr st ys s1)"
  by (induction xs arbitrary: s) (auto split: sum.splits)

lemma bar_loop_append:
  "bar_loop self df signals c sl lr st (xs @ ys) s =
     (case bar_loop self df signals c sl lr st xs s of
        Inl e \<Rightarrow> Inl e
      | Inr s1 \<Rightarrow> bar_loop self df signals c sl lr st ys s1)"
  by (induction xs arbitrary: s) (auto split: sum.splits)

lemma trailing_stop_idx_last:
  "length df \<le> e + 1 \<Longrightarrow> trailing_stop_idx self df st e p = None"
  by (simp add: trailing_stop_idx_def)

lemma forced_exit_idx_last:
  "length df \<le> e + 1 \<Longrightarrow> forced_exit_idx self df e = None"
  by (simp add: forced_exit_idx_def Let_def)

lemma exit_for_last:
  assumes "df \<noteq> []" "\<forall>x\<in>set xc. x < length df"
  shows "exit_for self df xc sl st (length df - 1) = (length df - 1, True, EndOfData)"
proof -
  have le: "length df \<le> length df - 1 + 1" by simp
  have "dropWhile (\<lambda>x. x \<le> length df - 1) xc = []"
    using assms(2) by (auto simp: dropWhile_eq_Nil_conv)
  then have ve: "drop (searchsorted_right xc (length df - 1)) xc = []"
    by (simp add: valid_exits_dropWhile)
  show ?thesis
    unfolding exit_for_def Let_def ve trailing_stop_idx_last [OF le] forced_exit_idx_last [OF le]
    by (simp add: resolve_exit_def signal_exit_idx_def)
qed

lemma days_between_self [simp]: "days_between d d = 0"
  by (simp add: days_between_def)

lemma make_trade_same_bar:
  assumes "df \<noteq> []"
  shows "same_bar_trade self df
           (make_trade self df c sl lr st (length df - 1) (length df - 1, True, EndOfData) pos)"
  using assms by (simp add: same_bar_trade_def make_trade_def Let_def last_conv_nth)

lemma vec_final_entry:
  assumes df: "df \<noteq> []" and len: "length signals = length df"
    and ent: "signals ! (length df - 1) = 1"
    and pre: "vec_loop self df (where_eq signals (- 1)) c sl lr st (where_eq (butlast signals) 1)
               \<lparr>v_cash = initial_capital self, v_current_pos = 0, v_trades = []\<rparr> = Inr s1"
    and cur: "v_current_pos s1 \<le> length df - 1"
    and sh: "position_size (v_cash s1) (Close (last df) * (1 + sl)) = Inr pos" "0 < pos"
  shows "\<exists>t eq. execute_trades_vectorized self df signals c sl lr st = Inr (v_trades s1 @ [t], eq)
              \<and> same_bar_trade self df t"
proof -
  let ?n = "length df - 1"
  have sne: "signals \<noteq> []" using df len by auto
  have lst: "last signals = 1" using ent len sne by (simp add: last_conv_nth)
  have cands: "where_eq signals 1 = where_eq (butlast signals) 1 @ [?n]"
    using where_eq_snoc [OF sne, of 1] lst len by simp
  have xc: "\<forall>x\<in>set (where_eq signals (- 1)). x < length df"
    using where_eq_less [of signals "- 1"] len by simp
  have ex: "exit_for self df (where_eq signals (- 1)) sl st ?n = (?n, True, EndOfData)"
    using exit_for_last [OF df xc] .
  have cl: "Close (df ! ?n) = Close (last df)" using df by (simp add: last_conv_nth)
  let ?t = "make_trade self df c sl lr st ?n (?n, True, EndOfData) pos"
  have step: "vec_step self df (where_eq signals (- 1)) c sl lr st ?n s1 =
      Inr \<lparr>v_cash = cash_after df c sl lr st ?n ?n pos (v_cash s1),
           v_current_pos = ?n + 1, v_trades = v_trades s1 @ [?t]\<rparr>"
  proof -
    have a: "\<not> ?n < v_current_pos s1" using cur by simp
    have b: "\<not> length df \<le> ?n" using df by (cases df) simp_all
    have p: "pos \<noteq> 0" using sh(2) by simp
    show ?thesis
      unfolding vec_step_def Let_def ex cl fst_conv sh(1) using a b p by simp
  qed
  have "execute_trades_vectorized self df signals c sl lr st
          = Inr (v_trades s1 @ [?t],
                 calculate_equity_from_trades_vectorized self df (v_trades s1 @ [?t]) st)"
  proof -
    have loop1: "vec_loop self df (where_eq signals (- 1)) c sl lr st [?n] s1 =
      Inr \<lparr>v_cash = cash_after df c sl lr st ?n ?n pos (v_cash s1),
           v_current_pos = ?n + 1, v_trades = v_trades s1 @ [?t]\<rparr>"
      unfolding vec_loop.simps step by simp
    show ?thesis
      unfolding execute_trades_vectorized_def Let_def cands vec_loop_append pre sum.case loop1
      using df by simp
  qed
  with make_trade_same_bar [OF df] show ?thesis by blast
qed

lemma bar_final_entry:
  assumes df: "df \<noteq> []" and len: "length signals = length df"
    and ent: "signals ! (length df - 1) = 1"
    and pre: "bar_loop self df signals c sl lr st [0..<length df - 1]
               \<lparr>b_cash = initial_capital self, b_position = 0, b_entry_price = 0,
                b_entry_date = None, b_trades = [], b_equity = []\<rparr> = Inr b1"
    and flat: "b_position b1 = 0"
    and sh: "int_of_quotient (b_cash b1) (Close (last df) * (1 + sl)) = Inr pos" "0 < pos"
  shows "\<exists>t eq. execute_trades self df signals c sl lr st = Inr (b_trades b1 @ [t], eq)
              \<and> same_bar_trade self df t"
proof -
  let ?n = "length df - 1"
  have up: "[0..<length df] = [0..<?n] @ [?n]"
    using df by (metis Suc_pred' length_greater_0_conv upt_Suc_append zero_le)
  have cl: "df ! ?n = last df" using df by (simp add: last_conv_nth)
  let ?ep = "Close (last df) * (1 + sl)"
  obtain b2 where step: "bar_step self c sl lr st (Date (last df)) (Close (last df)) 1 b1 = Inr b2"
      and b2: "b_position b2 = pos" "b_entry_date b2 = Some (Date (last df))"
              "b_trades b2 = b_trades b1"
    using flat sh by (simp add: bar_step_def Let_def)
  have run: "bar_loop self df signals c sl lr st [0..<length df]
               \<lparr>b_cash = initial_capital self, b_position = 0, b_entry_price = 0,
                b_entry_date = None, b_trades = [], b_equity = []\<rparr> = Inr b2"
  proof -
    have b: "\<not> length signals \<le> ?n" using df len by (cases df) simp_all
    have "bar_loop self df signals c sl lr st [?n] b1 = Inr b2"
      unfolding bar_loop.simps cl ent using b step by simp
    then show ?thesis
      unfolding up bar_loop_append pre by simp
  qed
  have "\<exists>t. close_at_end self df c lr st b2 = b_trades b1 @ [t] \<and> same_bar_trade self df t"
    using b2 sh(2) by (simp add: close_at_end_def Let_def same_bar_trade_def)
  then show ?thesis
    by (auto simp: execute_trades_def run)
qed

text \<open>
  C10. The per-bar simulator does what the claim says: at an Enter on the last bar with no
  position open it buys and closes the position on that bar (\<open>bar_final_entry\<close>). The
  vectorised simulator does so only if its scan position has not passed the last bar
  (\<open>vec_final_entry\<close>). After an Enter that bought no share the scan position is moved
  past the exit computed for that entry, which is the last bar when no exit signal
  follows; then no position is open, yet the Enter on the last bar is never considered.
  With a capital of 100, closes 150, 150, 50 and Enter signals on bars 0 and 2, the
  vectorised simulator returns no trade, while the per-bar simulator returns the trade
  entered and closed on bar 2.
\<close>

theorem final_bar_entry_lost_after_zero_share_enter:
  "execute_trades_vectorized (engine_of 100 False) (daily [150, 150, 50]) [1, 0, 1] 0 0 0 Long
     = Inr ([], [100, 100, 100])
   \<and> position_size 100 (50 * (1 + 0)) = Inr 2
   \<and> execute_trades (engine_of 100 False) (daily [150, 150, 50]) [1, 0, 1] 0 0 0 Long
     = Inr ([\<lparr>entry_date = 172800000000000, exit_date = 172800000000000, entry_price = 50,
              exit_price = 50, shares = 2, profit = 0, profit_pct = 0, holding_days = 0,
              forced_exit = True, within_target_period = True, exit_reason = EndOfData\<rparr>],
            [100, 100, 100])
   \<and> same_bar_trade (engine_of 100 False) (daily [150, 150, 50])
        \<lparr>entry_date = 172800000000000, exit_date = 172800000000000, entry_price = 50,
         exit_price = 50, shares = 2, profit = 0, profit_pct = 0, holding_days = 0,
         forced_exit = True, within_target_period = True, exit_reason = EndOfData\<rparr>"
  by code_simp


section \<open>Sign of the equity trajectory\<close>

lemma funded_snoc:
  "funded c (ts @ [t]) \<longleftrightarrow>
     funded c ts
     \<and> 0 \<le> shares t
     \<and> real_of_int (shares t) * entry_price t \<le> c + sum_list (map profit ts)
     \<and> 0 \<le> c + sum_list (map profit ts) + profit t"
  by (induction ts arbitrary: c) (auto simp: add.assoc)

lemma funded_nonneg: "funded c ts \<Longrightarrow> 0 \<le> c + sum_list (map profit ts)"
proof (induction ts arbitrary: c)
  case Nil
  then show ?case by simp
next
  case (Cons t ts)
  then have "0 \<le> (c + profit t) + sum_list (map profit ts)" by simp
  then show ?case by (simp add: add.assoc)
qed

lemma length_fill_slice [simp]: "length (fill_slice i j f xs) = length xs"
  by (simp add: fill_slice_def)

lemma fill_slice_nonneg:
  assumes "\<forall>v\<in>set xs. (0::real) \<le> v" "\<forall>k. i \<le> k \<and> k < j \<and> k < length xs \<longrightarrow> 0 \<le> f k"
  shows "\<forall>v\<in>set (fill_slice i j f xs). 0 \<le> v"
  using assms by (auto simp: fill_slice_def)

lemma equity_loop_nonneg:
  assumes "\<forall>b\<in>set df. 0 \<le> Close b"
  shows "funded cash ts \<Longrightarrow> length equity = length df \<Longrightarrow> \<forall>v\<in>set equity. 0 \<le> v
         \<Longrightarrow> \<forall>v\<in>set (equity_loop df Long ts cash equity). 0 \<le> v"
proof (induction ts arbitrary: cash equity)
  case Nil
  then show ?case by simp
next
  case (Cons t ts)
  let ?n = "length df"
  let ?ei = "searchsorted (map Date df) (entry_date t)"
  let ?xi = "searchsorted (map Date df) (exit_date t)"
  let ?e1 = "if ?ei > 0 then fill_slice 0 ?ei (\<lambda>k. cash) equity else equity"
  let ?te = "min (?xi + 1) ?n"
  let ?f = "\<lambda>k. cash - real_of_int (shares t) * entry_price t + real_of_int (shares t) * Close (df ! k)"
  let ?e2 = "if ?ei < ?te then fill_slice ?ei ?te ?f ?e1 else ?e1"
  let ?c' = "cash + profit t"
  let ?e3 = "if ?xi + 1 < ?n then fill_slice (?xi + 1) ?n (\<lambda>k. ?c') ?e2 else ?e2"
  from Cons.prems(1) have c: "0 \<le> cash" "0 \<le> shares t"
      "real_of_int (shares t) * entry_price t \<le> cash" "funded ?c' ts"
    by simp_all
  have c': "0 \<le> ?c'" using funded_nonneg [OF c(4)] c(4) by (cases ts) auto
  have l1: "length ?e1 = ?n" using Cons.prems(2) by simp
  have n1: "\<forall>v\<in>set ?e1. 0 \<le> v"
    using fill_slice_nonneg [of equity 0 ?ei "\<lambda>k. cash"] Cons.prems(3) c(1) by auto
  have fk: "\<forall>k. ?ei \<le> k \<and> k < ?te \<and> k < length ?e1 \<longrightarrow> 0 \<le> ?f k"
  proof (intro allI impI)
    fix k assume "?ei \<le> k \<and> k < ?te \<and> k < length ?e1"
    then have "k < length df" using l1 by simp
    then have "0 \<le> Close (df ! k)" using assms by simp
    then have "0 \<le> real_of_int (shares t) * Close (df ! k)" using c(2) by simp
    with c(3) show "0 \<le> ?f k" by linarith
  qed
  have l2: "length ?e2 = ?n" using Cons.prems(2) by simp
  have n2: "\<forall>v\<in>set ?e2. 0 \<le> v"
    using fill_slice_nonneg [OF n1 fk] n1 by auto
  have l3: "length ?e3 = ?n" using Cons.prems(2) by simp
  have n3: "\<forall>v\<in>set ?e3. 0 \<le> v"
    using fill_slice_nonneg [of ?e2 "?xi + 1" ?n "\<lambda>k. ?c'"] n2 c' by auto
  have "equity_loop df Long (t # ts) cash equity = equity_loop df Long ts ?c' ?e3"
    by (simp add: Let_def)
  with Cons.IH [OF c(4) l3 n3] show ?case by simp
qed

lemma floor_quotient_affordable:
  assumes "0 < ep"
  shows "real_of_int \<lfloor>cash / ep\<rfloor> * ep \<le> cash"
proof -
  have "real_of_int \<lfloor>cash / ep\<rfloor> * ep \<le> (cash / ep) * ep"
    by (rule mult_right_mono) (use assms in simp_all)
  also have "(cash / ep) * ep = cash" using assms by simp
  finally show ?thesis .
qed

lemma int_of_quotient_Inr:
  assumes "int_of_quotient cash ep = Inr pos"
  shows "ep \<noteq> 0" "pos = py_int (cash / ep)"
  using assms by (auto simp: int_of_quotient_def split: if_splits)

lemma position_size_bounds:
  assumes "0 \<le> cash" "position_size cash ep = Inr pos" "pos \<noteq> 0"
  shows "0 < ep \<and> 0 \<le> pos \<and> real_of_int pos * ep \<le> cash"
proof -
  from assms(2,3) have ep: "0 < ep" by (auto simp: position_size_def split: if_splits)
  then have q: "0 \<le> cash / ep" using assms(1) by simp
  from assms(2) ep have "int_of_quotient cash ep = Inr pos" by (simp add: position_size_def)
  from int_of_quotient_Inr(2) [OF this] q have p: "pos = \<lfloor>cash / ep\<rfloor>"
    by (simp add: py_int_def)
  from floor_quotient_affordable [OF ep, of cash] ep q p show ?thesis by simp
qed

lemma make_trade_long_free:
  "shares (make_trade self df 0 sl lr Long e r pos) = pos"
  "entry_price (make_trade self df 0 sl lr Long e r pos) = Close (df ! e) * (1 + sl)"
  "profit (make_trade self df 0 sl lr Long e r pos)
     = (Close (df ! fst r) * (1 - sl) - Close (df ! e) * (1 + sl)) * real_of_int pos"
  by (simp_all add: make_trade_def Let_def)

lemma cash_after_long_free:
  "cash_after df 0 sl lr Long e x pos cash
     = cash + (Close (df ! x) * (1 - sl) - Close (df ! e) * (1 + sl)) * real_of_int pos"
  by (simp add: cash_after_def Let_def lending_cost_of_def algebra_simps)

lemma vec_step_cash_ok:
  assumes step: "vec_step self df xc 0 sl lr Long e s = Inr s'" and ok: "cash_ok c0 s"
    and cl: "\<forall>b\<in>set df. 0 \<le> Close b" and sl: "sl \<le> 1"
  shows "cash_ok c0 s'"
  using step
proof (cases rule: vec_step_Inr_cases)
  case skip
  with ok show ?thesis by simp
next
  case zero
  with ok show ?thesis by (simp add: cash_ok_def)
next
  case (trade pos)
  let ?r = "exit_for self df xc sl Long e"
  let ?ep = "Close (df ! e) * (1 + sl)"
  let ?xp = "Close (df ! fst ?r) * (1 - sl)"
  let ?t = "make_trade self df 0 sl lr Long e ?r pos"
  have cash: "0 \<le> v_cash s" using ok funded_nonneg [of c0 "v_trades s"] by (simp add: cash_ok_def)
  from position_size_bounds [OF cash trade(4) trade(6)]
  have b: "0 \<le> pos" "real_of_int pos * ?ep \<le> v_cash s" by simp_all
  have "0 \<le> Close (df ! fst ?r)" using cl trade(3) by simp
  then have xp: "0 \<le> ?xp" using sl by simp
  then have "0 \<le> real_of_int pos * ?xp" using b(1) by simp
  with b(2) have after: "0 \<le> v_cash s + (?xp - ?ep) * real_of_int pos"
    by (simp add: algebra_simps)
  have vc: "v_cash s = c0 + sum_list (map profit (v_trades s))" using ok by (simp add: cash_ok_def)
  have f: "funded c0 (v_trades s @ [?t])"
    unfolding funded_snoc make_trade_long_free
    using ok b after by (simp add: cash_ok_def)
  show ?thesis
    unfolding cash_ok_def trade(5) using f vc
    by (simp add: cash_after_long_free make_trade_long_free)
qed

lemma vec_loop_cash_ok:
  assumes cl: "\<forall>b\<in>set df. 0 \<le> Close b" and sl: "sl \<le> 1"
  shows "vec_loop self df xc 0 sl lr Long cands s = Inr s' \<Longrightarrow> cash_ok c0 s \<Longrightarrow> cash_ok c0 s'"
proof (induction cands arbitrary: s)
  case Nil
  then show ?case by simp
next
  case (Cons e rest)
  then show ?case
    by (auto split: sum.splits dest: vec_step_cash_ok [OF _ _ cl sl])
qed

lemma vectorized_long_equity_nonneg:
  assumes cap: "0 \<le> initial_capital self" and cl: "\<forall>b\<in>set df. 0 \<le> Close b" and sl: "sl \<le> 1"
    and run: "execute_trades_vectorized self df signals 0 sl lr Long = Inr (trades, equity)"
  shows "\<forall>v\<in>set equity. 0 \<le> v"
proof (cases "df = []")
  case True
  with run show ?thesis by (simp add: execute_trades_vectorized_def)
next
  case False
  from run False obtain s where s:
    "vec_loop self df (where_eq signals (- 1)) 0 sl lr Long (where_eq signals 1)
        \<lparr>v_cash = initial_capital self, v_current_pos = 0, v_trades = []\<rparr> = Inr s"
    "trades = v_trades s"
    "equity = calculate_equity_from_trades_vectorized self df trades Long"
    by (rule execute_trades_vectorized_Inr)
  have "cash_ok (initial_capital self)
          \<lparr>v_cash = initial_capital self, v_current_pos = 0, v_trades = []\<rparr>"
    using cap by (simp add: cash_ok_def)
  from vec_loop_cash_ok [OF cl sl s(1) this]
  have f: "funded (initial_capital self) trades" by (simp add: cash_ok_def s(2))
  have r: "\<forall>v\<in>set (replicate (length df) (initial_capital self)). 0 \<le> v" using cap by simp
  show ?thesis
    unfolding s(3) calculate_equity_from_trades_vectorized_def Let_def
    using equity_loop_nonneg [OF cl f _ r] r by simp
qed

lemma bar_step_ok:
  assumes step: "bar_step self 0 sl lr Long dt price signal s = Inr s'" and ok: "bar_ok s"
    and pr: "0 \<le> price" and sl: "0 \<le> sl" "sl \<le> 1"
  shows "bar_ok s'"
proof -
  have c: "0 \<le> b_cash s" "0 \<le> b_position s" "\<forall>v\<in>set (b_equity s). 0 \<le> v"
    using ok by (simp_all add: bar_ok_def)
  have eq: "0 \<le> b_cash s + real_of_int (b_position s) * price" using c pr by simp
  have ep: "0 \<le> price * (1 + sl)" using pr sl by simp
  have xp: "0 \<le> real_of_int (b_position s) * (price * (1 - sl))" using pr sl c(2) by simp
  have fl: "0 \<le> pos \<and> real_of_int pos * (price * (1 + sl)) \<le> b_cash s"
    if a: "int_of_quotient (b_cash s) (price * (1 + sl)) = Inr pos" for pos
  proof -
    note nz = int_of_quotient_Inr(1) [OF a] and pv = int_of_quotient_Inr(2) [OF a]
    from ep nz have p: "0 < price * (1 + sl)" unfolding less_le by (simp only: not_sym simp_thms)
    then have q: "0 \<le> b_cash s / (price * (1 + sl))" using c(1) by simp
    from floor_quotient_affordable [OF p, of "b_cash s"] q
    show ?thesis unfolding pv by (simp add: py_int_def)
  qed
  show ?thesis
    using step c eq xp fl unfolding bar_step_def Let_def bar_ok_def
    by (auto split: if_splits option.splits sum.splits)
qed

lemma bar_loop_ok:
  assumes cl: "\<forall>b\<in>set df. 0 \<le> Close b" and sl: "0 \<le> sl" "sl \<le> 1"
  shows "bar_loop self df signals 0 sl lr Long idxs s = Inr s' \<Longrightarrow> \<forall>i\<in>set idxs. i < length df
         \<Longrightarrow> bar_ok s \<Longrightarrow> bar_ok s'"
proof (induction idxs arbitrary: s)
  case Nil
  then show ?case by simp
next
  case (Cons i rest)
  from Cons.prems(1) obtain s1 where
    s1: "bar_step self 0 sl lr Long (Date (df ! i)) (Close (df ! i)) (signals ! i) s = Inr s1"
    and rest: "bar_loop self df signals 0 sl lr Long rest s1 = Inr s'"
    by (auto split: if_splits sum.splits)
  have "0 \<le> Close (df ! i)" using cl Cons.prems(2) by simp
  from bar_step_ok [OF s1 Cons.prems(3) this sl] have "bar_ok s1" .
  from Cons.IH [OF rest _ this] Cons.prems(2) show ?case by simp
qed

lemma per_bar_long_equity_nonneg:
  assumes cap: "0 \<le> initial_capital self" and cl: "\<forall>b\<in>set df. 0 \<le> Close b"
    and sl: "0 \<le> sl" "sl \<le> 1"
    and run: "execute_trades self df signals 0 sl lr Long = Inr (trades, equity)"
  shows "\<forall>v\<in>set equity. 0 \<le> v"
proof -
  let ?s0 = "\<lparr>b_cash = initial_capital self, b_position = 0, b_entry_price = 0,
              b_entry_date = None, b_trades = [], b_equity = []\<rparr>"
  from run obtain s where s: "bar_loop self df signals 0 sl lr Long [0..<length df] ?s0 = Inr s"
    and e: "equity = b_equity s"
    by (auto simp: execute_trades_def split: sum.splits)
  have "bar_ok ?s0" using cap by (simp add: bar_ok_def)
  from bar_loop_ok [OF cl sl s _ this] have "bar_ok s" by simp
  then show ?thesis by (simp add: bar_ok_def e)
qed

text \<open>
  C9 (amended). For a Long run with initial capital > 0, closes that are not negative,
  a slippage rate between 0 and 1 and no commission, every value of the equity trajectory
  produced by the simulator (the vectorised one and the per-bar one) is \<open>\<ge> 0\<close>.
  (Values are exact reals, so finiteness is not a question in this model.)
\<close>

theorem long_equity_never_negative:
  assumes "0 < initial_capital self" and "\<forall>b\<in>set df. 0 \<le> Close b"
    and "0 \<le> slippage" and "slippage \<le> 1"
  shows "(\<forall>trades equity.
            execute_trades_vectorized self df signals 0 slippage lending_rate Long = Inr (trades, equity)
            \<longrightarrow> (\<forall>v\<in>set equity. 0 \<le> v))
       \<and> (\<forall>trades equity.
            execute_trades self df signals 0 slippage lending_rate Long = Inr (trades, equity)
            \<longrightarrow> (\<forall>v\<in>set equity. 0 \<le> v))"
proof -
  have cap: "0 \<le> initial_capital self" using assms(1) by simp
  show ?thesis
    using vectorized_long_equity_nonneg [OF cap assms(2) assms(4)]
          per_bar_long_equity_nonneg [OF cap assms(2) assms(3) assms(4)]
    by blast
qed

text \<open>
  C9 as stated fails. Short: entered at 100 with all the capital of 1000, the close of 300
  on the next bar puts the equity at -1000. Long with a commission of 1 percent: entered at
  100 with a capital of 100, a close of 1/2 leaves a cash of -101/200 after settlement.
\<close>

theorem equity_goes_negative:
  "execute_trades_vectorized (engine_of 1000 True) (daily [100, 300, 300]) [1, 0, 0] 0 0 0 Short
     = Inr ([\<lparr>entry_date = 0, exit_date = 86400000000000, entry_price = 100,
              exit_price = 300, shares = 10, profit = - 2000, profit_pct = - 200,
              holding_days = 1, forced_exit = False, within_target_period = True,
              exit_reason = TrailingStop\<rparr>],
            [1000, - 1000, - 1000])
   \<and> position_size 1000 (100 * (1 + 0)) = Inr 10
   \<and> \<not> (0 :: real) \<le> - 1000
   \<and> execute_trades_vectorized (engine_of 100 True) (daily [100, 1 / 2, 1 / 2]) [1, 0, 0]
        (1 / 100) 0 0 Long
     = Inr ([\<lparr>entry_date = 0, exit_date = 86400000000000, entry_price = 100,
              exit_price = 1 / 2, shares = 1, profit = - (20101 / 200),
              profit_pct = - (20101 / 200), holding_days = 1,
              forced_exit = False, within_target_period = True,
              exit_reason = TrailingStop\<rparr>],
            [100, 1 / 2, - (101 / 200)])
   \<and> \<not> (0 :: real) \<le> - (101 / 200)"
  by code_simp

theorem long_equity_never_negative_witness:
  "0 < initial_capital (engine_of 1000 True)
   \<and> list_all (\<lambda>b. 0 \<le> Close b) (daily [100, 110, 90, 120])
   \<and> (0 :: real) \<le> 1 / 100 \<and> (1 / 100 :: real) \<le> 1
   \<and> execute_trades_vectorized (engine_of 1000 True) (daily [100, 110, 90, 120]) [1, - 1, 1, 0]
        0 (1 / 100) 0 Long
     = Inr ([\<lparr>entry_date = 0, exit_date = 86400000000000, entry_price = 101,
              exit_price = 1089 / 10, shares = 9, profit = 711 / 10,
              profit_pct = 790 / 101, holding_days = 1, forced_exit = False,
              within_target_period = True, exit_reason = Signal\<rparr>,
             \<lparr>entry_date = 172800000000000, exit_date = 259200000000000,
              entry_price = 909 / 10, exit_price = 594 / 5, shares = 11,
              profit = 3069 / 10, profit_pct = 3100 / 101, holding_days = 1,
              forced_exit = True, within_target_period = True,
              exit_reason = EndOfData\<rparr>],
            [10711 / 10, 10711 / 10, 5306 / 5, 6956 / 5])
   \<and> list_all (\<lambda>v. 0 \<le> v) [10711 / 10, 10711 / 10, 5306 / 5, 6956 / 5 :: real]
   \<and> execute_trades (engine_of 1000 True) (daily [100, 110, 90, 120]) [1, - 1, 1, 0]
        0 (1 / 100) 0 Long
     = Inr ([\<lparr>entry_date = 0, exit_date = 86400000000000, entry_price = 101,
              exit_price = 1089 / 10, shares = 9, profit = 711 / 10,
              profit_pct = 790 / 101, holding_days = 1, forced_exit = False,
              within_target_period = True, exit_reason = Signal\<rparr>,
             \<lparr>entry_date = 172800000000000, exit_date = 259200000000000,
              entry_price = 909 / 10, exit_price = 120, shares = 11,
              profit = 3201 / 10, profit_pct = 9700 / 303, holding_days = 1,
              forced_exit = True, within_target_period = True,
              exit_reason = EndOfData\<rparr>],
            [1000, 1081, 10711 / 10, 6956 / 5])
   \<and> list_all (\<lambda>v. 0 \<le> v) [1000, 1081, 10711 / 10, 6956 / 5 :: real]"
proof -
  have h1: "0 < initial_capital (engine_of 1000 True)" by code_simp
  have h2: "\<forall>b\<in>set (daily [100, 110, 90, 120]). 0 \<le> Close b" by code_simp
  have h3: "(0 :: real) \<le> 1 / 100" by simp
  have h4: "(1 / 100 :: real) \<le> 1" by simp
  have v: "execute_trades_vectorized (engine_of 1000 True) (daily [100, 110, 90, 120]) [1, - 1, 1, 0]
        0 (1 / 100) 0 Long
     = Inr ([\<lparr>entry_date = 0, exit_date = 86400000000000, entry_price = 101,
              exit_price = 1089 / 10, shares = 9, profit = 711 / 10,
              profit_pct = 790 / 101, holding_days = 1, forced_exit = False,
              within_target_period = True, exit_reason = Signal\<rparr>,
             \<lparr>entry_date = 172800000000000, exit_date = 259200000000000,
              entry_price = 909 / 10, exit_price = 594 / 5, shares = 11,
              profit = 3069 / 10, profit_pct = 3100 / 101, holding_days = 1,
              forced_exit = True, within_target_period = True,
              exit_reason = EndOfData\<rparr>],
            [10711 / 10, 10711 / 10, 5306 / 5, 6956 / 5])"
    by code_simp
  have b: "execute_trades (engine_of 1000 True) (daily [100, 110, 90, 120]) [1, - 1, 1, 0]
        0 (1 / 100) 0 Long
     = Inr ([\<lparr>entry_date = 0, exit_date = 86400000000000, entry_price = 101,
              exit_price = 1089 / 10, shares = 9, profit = 711 / 10,
              profit_pct = 790 / 101, holding_days = 1, forced_exit = False,
              within_target_period = True, exit_reason = Signal\<rparr>,
             \<lparr>entry_date = 172800000000000, exit_date = 259200000000000,
              entry_price = 909 / 10, exit_price = 120, shares = 11,
              profit = 3201 / 10, profit_pct = 9700 / 303, holding_days = 1,
              forced_exit = True, within_target_period = True,
              exit_reason = EndOfData\<rparr>],
            [1000, 1081, 10711 / 10, 6956 / 5])"
    by code_simp
  note inst = long_equity_never_negative [OF h1 h2 h3 h4, of "[1, - 1, 1, 0]" 0]
  from inst v have cv: "\<forall>v\<in>set [10711 / 10, 10711 / 10, 5306 / 5, 6956 / 5 :: real]. 0 \<le> v"
    by blast
  from inst b have cb: "\<forall>v\<in>set [1000, 1081, 10711 / 10, 6956 / 5 :: real]. 0 \<le> v"
    by blast
  from h1 h2 h3 h4 v b cv cb show ?thesis unfolding list_all_iff by blast
qed


section \<open>The two simulators compared\<close>

lemma flat_scan:
  assumes "b_position s = 0" "\<forall>i\<in>set idxs. i < length signals \<and> signals ! i \<noteq> 1"
  shows "\<exists>s'. bar_loop self df signals c sl lr st idxs s = Inr s'
            \<and> b_position s' = 0 \<and> b_cash s' = b_cash s \<and> b_trades s' = b_trades s"
  using assms
proof (induction idxs arbitrary: s)
  case Nil
  then show ?case by simp
next
  case (Cons i rest)
  let ?s1 = "s\<lparr>b_equity := b_equity s @ [b_cash s]\<rparr>"
  have step: "bar_step self c sl lr st (Date (df ! i)) (Close (df ! i)) (signals ! i) s = Inr ?s1"
    using Cons.prems by (simp add: bar_step_def Let_def)
  have "\<exists>s'. bar_loop self df signals c sl lr st rest ?s1 = Inr s'
            \<and> b_position s' = 0 \<and> b_cash s' = b_cash ?s1 \<and> b_trades s' = b_trades ?s1"
    using Cons.prems by (intro Cons.IH) simp_all
  then show ?case using Cons.prems(2) step by simp
qed

lemma hold_scan:
  assumes "0 < b_position s" "b_entry_date s = Some d"
    "\<forall>i\<in>set idxs. i < length signals \<and> signals ! i \<noteq> - 1
        \<and> days_between d (Date (df ! i)) < max_holding_days self"
  shows "\<exists>s'. bar_loop self df signals c sl lr st idxs s = Inr s'
            \<and> b_position s' = b_position s \<and> b_cash s' = b_cash s \<and> b_trades s' = b_trades s
            \<and> b_entry_date s' = Some d \<and> b_entry_price s' = b_entry_price s"
  using assms
proof (induction idxs arbitrary: s)
  case Nil
  then show ?case by simp
next
  case (Cons i rest)
  obtain s1 where step: "bar_step self c sl lr st (Date (df ! i)) (Close (df ! i)) (signals ! i) s = Inr s1"
    and s1: "b_position s1 = b_position s" "b_cash s1 = b_cash s" "b_trades s1 = b_trades s"
            "b_entry_date s1 = Some d" "b_entry_price s1 = b_entry_price s"
    using Cons.prems by (simp add: bar_step_def Let_def)
  have "\<exists>s'. bar_loop self df signals c sl lr st rest s1 = Inr s'
            \<and> b_position s' = b_position s1 \<and> b_cash s' = b_cash s1 \<and> b_trades s' = b_trades s1
            \<and> b_entry_date s' = Some d \<and> b_entry_price s' = b_entry_price s1"
    using Cons.prems s1 by (intro Cons.IH) simp_all
  then show ?case using Cons.prems(3) step s1 by simp
qed

lemma entry_step:
  assumes "b_position s = 0" "int_of_quotient (b_cash s) (price * (1 + sl)) = Inr pos" "0 < pos"
  shows "\<exists>s'. bar_step self 0 sl lr st dt price 1 s = Inr s'
            \<and> b_position s' = pos
            \<and> b_entry_price s' = price * (1 + sl) \<and> b_entry_date s' = Some dt
            \<and> b_cash s' = b_cash s - real_of_int pos * (price * (1 + sl))
            \<and> b_trades s' = b_trades s"
  using assms by (simp add: bar_step_def Let_def)

lemma exit_step:
  assumes pos: "0 < b_position s" and d: "b_entry_date s = Some (Date (df ! e))"
    and ep: "b_entry_price s = Close (df ! e) * (1 + sl)" "0 < Close (df ! e) * (1 + sl)"
    and trig: "signal = - 1 \<or> max_holding_days self \<le> days_between (Date (df ! e)) (Date (df ! x))"
    and r: "fst r = x"
       "fst (snd r) = (max_holding_days self \<le> days_between (Date (df ! e)) (Date (df ! x)))"
       "snd (snd r) = (if max_holding_days self \<le> days_between (Date (df ! e)) (Date (df ! x))
                       then ForcedMax else Signal)"
    and cash: "b_cash s = cash - real_of_int (b_position s) * (Close (df ! e) * (1 + sl))"
  shows "\<exists>s'. bar_step self 0 sl lr st (Date (df ! x)) (Close (df ! x)) signal s = Inr s'
            \<and> b_position s' = 0
            \<and> b_cash s' = cash_after df 0 sl lr st e x (b_position s) cash
            \<and> b_trades s' = b_trades s @ [make_trade self df 0 sl lr st e r (b_position s)]"
proof -
  have c: "0 < real_of_int (b_position s) * (Close (df ! e) * (1 + sl))"
    using pos ep(2) by simp
  have t: "make_trade self df 0 sl lr st e r (b_position s)
     = \<lparr>entry_date = Date (df ! e), exit_date = Date (df ! x),
         entry_price = Close (df ! e) * (1 + sl), exit_price = Close (df ! x) * (1 - sl),
         shares = b_position s,
         profit = (if st = Long
                   then (Close (df ! x) * (1 - sl) - Close (df ! e) * (1 + sl)) * real_of_int (b_position s)
                   else (Close (df ! e) * (1 + sl) - Close (df ! x) * (1 - sl)) * real_of_int (b_position s)
                        - real_of_int (b_position s) * (Close (df ! e) * (1 + sl)) * lr
                            * (real_of_int (days_between (Date (df ! e)) (Date (df ! x))) / 365)),
         profit_pct = (if st = Long
                   then (Close (df ! x) * (1 - sl) - Close (df ! e) * (1 + sl)) * real_of_int (b_position s)
                   else (Close (df ! e) * (1 + sl) - Close (df ! x) * (1 - sl)) * real_of_int (b_position s)
                        - real_of_int (b_position s) * (Close (df ! e) * (1 + sl)) * lr
                            * (real_of_int (days_between (Date (df ! e)) (Date (df ! x))) / 365))
                   / (real_of_int (b_position s) * (Close (df ! e) * (1 + sl))) * 100,
         holding_days = days_between (Date (df ! e)) (Date (df ! x)),
         forced_exit = (max_holding_days self \<le> days_between (Date (df ! e)) (Date (df ! x))),
         within_target_period = (days_between (Date (df ! e)) (Date (df ! x)) \<le> target_holding_days self),
         exit_reason = (if max_holding_days self \<le> days_between (Date (df ! e)) (Date (df ! x))
                        then ForcedMax else Signal)\<rparr>"
    using c r by (cases st) (simp_all add: make_trade_def Let_def lending_cost_of_def)
  show ?thesis
    unfolding t using pos d ep trig cash
    by (cases st) (auto simp: bar_step_def Let_def cash_after_def lending_cost_of_def)
qed

lemma argmax_mask_first:
  assumes "any_mask m"
  shows "m ! argmax_mask m \<and> (\<forall>j<argmax_mask m. \<not> m ! j)"
  using assms
proof (induction m)
  case Nil
  then show ?case by (simp add: any_mask_def)
next
  case (Cons b m)
  show ?case
  proof (cases b)
    case True
    then show ?thesis by (simp add: argmax_mask_def any_mask_def)
  next
    case False
    with Cons.prems have a: "any_mask m" by (simp add: any_mask_def)
    have am: "argmax_mask (b # m) = Suc (argmax_mask m)"
      using False a by (simp add: argmax_mask_def any_mask_def)
    from Cons.IH [OF a] False show ?thesis
      unfolding am by (auto simp: nth_Cons split: nat.splits)
  qed
qed

lemma any_mask_none: "\<not> any_mask m \<Longrightarrow> j < length m \<Longrightarrow> \<not> m ! j"
  by (auto simp: any_mask_def in_set_conv_nth)

lemma forced_exit_idx_Some:
  assumes "forced_exit_idx self df e = Some f"
  shows "max_holding_days self \<le> days_between (Date (df ! e)) (Date (df ! f))
       \<and> (\<forall>i. e < i \<and> i < f \<longrightarrow> days_between (Date (df ! e)) (Date (df ! i)) < max_holding_days self)"
proof -
  define se where "se = min (int e + max_holding_days self + 2) (int (length df))"
  define fm where "fm = map (\<lambda>d. d \<ge> max_holding_days self)
     (map (\<lambda>d. (d - Date (df ! e)) div ns_per_day) (slice (e + 1) (nat se) (map Date df)))"
  from assms have c: "int e + 1 < se" "any_mask fm" "f = e + 1 + argmax_mask fm"
    by (auto simp: forced_exit_idx_def Let_def se_def fm_def split: if_splits)
  have se: "nat se \<le> length df" by (simp add: se_def)
  have len: "length fm = nat se - (e + 1)" by (simp add: fm_def slice_def se_def)
  have nth: "fm ! j = (max_holding_days self \<le> days_between (Date (df ! e)) (Date (df ! (e + 1 + j))))"
    if "j < length fm" for j
  proof -
    from that len se have "e + 1 + j < length df" by simp
    with that len show ?thesis
      by (simp add: fm_def slice_def days_between_def)
  qed
  from argmax_mask_first [OF c(2)] have
    hit: "fm ! argmax_mask fm" and before: "\<forall>j<argmax_mask fm. \<not> fm ! j" by simp_all
  have al: "argmax_mask fm < length fm" using argmax_mask_less [OF c(2)] .
  have 1: "max_holding_days self \<le> days_between (Date (df ! e)) (Date (df ! f))"
    using hit nth [OF al] c(3) by simp
  have 2: "days_between (Date (df ! e)) (Date (df ! i)) < max_holding_days self"
    if "e < i" "i < f" for i
  proof -
    from that c(3) have j: "i - (e + 1) < argmax_mask fm" by simp
    then have jl: "i - (e + 1) < length fm" using al by simp
    from before j have "\<not> fm ! (i - (e + 1))" by simp
    with nth [OF jl] that(1) show ?thesis by simp
  qed
  from 1 2 show ?thesis by blast
qed

lemma le_div_pos_iff:
  fixes k a d :: int
  assumes "0 < d"
  shows "k \<le> a div d \<longleftrightarrow> k * d \<le> a"
proof -
  have "k \<le> a div d \<longleftrightarrow> k \<le> \<lfloor>real_of_int a / real_of_int d\<rfloor>"
    by (simp add: floor_divide_of_int_eq)
  also have "\<dots> \<longleftrightarrow> real_of_int k \<le> real_of_int a / real_of_int d"
    by (simp add: le_floor_iff)
  also have "\<dots> \<longleftrightarrow> real_of_int k * real_of_int d \<le> real_of_int a"
    using assms by (simp add: pos_le_divide_eq)
  also have "\<dots> \<longleftrightarrow> real_of_int (k * d) \<le> real_of_int a" by simp
  also have "\<dots> \<longleftrightarrow> k * d \<le> a" by (simp only: of_int_le_iff)
  finally show ?thesis .
qed

lemma le_days_iff: "k \<le> a div ns_per_day \<longleftrightarrow> k * ns_per_day \<le> a"
  by (rule le_div_pos_iff) (simp add: ns_per_day_def)

lemma spaced_days:
  assumes sp: "\<forall>i. i + 1 < length df \<longrightarrow> Date (df ! i) + ns_per_day \<le> Date (df ! (i + 1))"
  shows "e + k < length df \<Longrightarrow> int k \<le> days_between (Date (df ! e)) (Date (df ! (e + k)))"
proof (induction k)
  case 0
  then show ?case by (simp add: days_between_def le_days_iff)
next
  case (Suc k)
  then have ih: "int k * ns_per_day \<le> Date (df ! (e + k)) - Date (df ! e)"
    by (simp add: days_between_def le_days_iff)
  have step: "Date (df ! (e + k)) + ns_per_day \<le> Date (df ! (e + Suc k))"
    using sp Suc.prems by simp
  have "int (Suc k) * ns_per_day \<le> Date (df ! (e + Suc k)) - Date (df ! e)"
    using ih step by (simp add: algebra_simps)
  then show ?case by (simp only: days_between_def le_days_iff)
qed

lemma forced_exit_idx_None:
  assumes none: "forced_exit_idx self df e = None"
    and sp: "\<forall>i. i + 1 < length df \<longrightarrow> Date (df ! i) + ns_per_day \<le> Date (df ! (i + 1))"
    and mx: "0 \<le> max_holding_days self"
    and i: "e < i" "i < length df"
  shows "days_between (Date (df ! e)) (Date (df ! i)) < max_holding_days self"
proof -
  define se where "se = min (int e + max_holding_days self + 2) (int (length df))"
  define fm where "fm = map (\<lambda>d. d \<ge> max_holding_days self)
     (map (\<lambda>d. (d - Date (df ! e)) div ns_per_day) (slice (e + 1) (nat se) (map Date df)))"
  have open_window: "int e + 1 < se" using mx i by (simp add: se_def)
  with none have na: "\<not> any_mask fm"
    by (auto simp: forced_exit_idx_def Let_def se_def fm_def split: if_splits)
  have se: "nat se \<le> length df" by (simp add: se_def)
  have len: "length fm = nat se - (e + 1)" by (simp add: fm_def slice_def se_def)
  have inside: "days_between (Date (df ! e)) (Date (df ! j)) < max_holding_days self"
    if "e < j" "j < nat se" for j
  proof -
    from that len have jl: "j - (e + 1) < length fm" by simp
    from that se have "j < length df" by simp
    with jl that(1) have "fm ! (j - (e + 1))
        = (max_holding_days self \<le> days_between (Date (df ! e)) (Date (df ! j)))"
      by (simp add: fm_def slice_def days_between_def len)
    with any_mask_none [OF na jl] show ?thesis by simp
  qed
  have "nat se = length df"
  proof (rule ccontr)
    assume "nat se \<noteq> length df"
    with se have lt: "nat se < length df" by simp
    then have se_eq: "se = int e + max_holding_days self + 2" by (simp add: se_def)
    define k where "k = max 1 (nat (max_holding_days self))"
    have k: "0 < k" "max_holding_days self \<le> int k" "int (e + k) < se"
      using mx unfolding k_def se_eq by linarith+
    then have ek: "e + k < nat se" by simp
    with lt have "e + k < length df" by simp
    from spaced_days [OF sp this] k(2)
    have "max_holding_days self \<le> days_between (Date (df ! e)) (Date (df ! (e + k)))" by simp
    moreover have "days_between (Date (df ! e)) (Date (df ! (e + k))) < max_holding_days self"
      using inside [of "e + k"] k(1) ek by simp
    ultimately show False by simp
  qed
  with inside [OF i(1)] i(2) show ?thesis by simp
qed

lemma first_filter_upt:
  "filter P [a..<m] = v # vs \<Longrightarrow> a \<le> v \<and> v < m \<and> P v \<and> (\<forall>i. a \<le> i \<and> i < v \<longrightarrow> \<not> P i)"
proof (induction "m - a" arbitrary: a)
  case 0
  then show ?case by simp
next
  case (Suc k)
  then have am: "a < m" by simp
  then have up: "[a..<m] = a # [Suc a..<m]" by (simp add: upt_conv_Cons)
  show ?case
  proof (cases "P a")
    case True
    with Suc.prems up am show ?thesis by auto
  next
    case False
    with Suc.prems up have f: "filter P [Suc a..<m] = v # vs" by simp
    have "k = m - Suc a" using Suc.hyps(2) by simp
    from Suc.hyps(1) [OF this f] False show ?thesis
      by (metis Suc_leD le_antisym not_less_eq_eq)
  qed
qed

lemma dropWhile_filter_upt:
  "dropWhile (\<lambda>x. x \<le> e) (filter P [0..<m]) = filter P [Suc e..<m]"
proof (cases "Suc e \<le> m")
  case True
  then have up: "[0..<m] = [0..<Suc e] @ [Suc e..<m]"
    by (metis le0 upt_add_eq_append le_add_diff_inverse plus_nat.add_0)
  have a: "\<forall>x\<in>set (filter P [0..<Suc e]). x \<le> e" by auto
  have b: "dropWhile (\<lambda>x. x \<le> e) (filter P [Suc e..<m]) = filter P [Suc e..<m]"
    by (cases "filter P [Suc e..<m]") (auto dest!: first_filter_upt)
  have "dropWhile (\<lambda>x. x \<le> e) (filter P [0..<Suc e] @ filter P [Suc e..<m])
          = dropWhile (\<lambda>x. x \<le> e) (filter P [Suc e..<m])"
    by (rule dropWhile_append2) (use a in blast)
  then show ?thesis
    unfolding up filter_append b .
next
  case False
  then have "\<forall>x\<in>set (filter P [0..<m]). x \<le> e" by auto
  then have "dropWhile (\<lambda>x. x \<le> e) (filter P [0..<m]) = []" by simp
  with False show ?thesis by simp
qed

lemma valid_exits_filter:
  "drop (searchsorted_right (where_eq signals (- 1)) e) (where_eq signals (- 1))
     = filter (\<lambda>i. signals ! i = - 1) [Suc e..<length signals]"
  by (simp add: valid_exits_dropWhile where_eq_def dropWhile_filter_upt)

lemma no_exit_signal_before:
  assumes "e < i" "i < length signals"
    "i < signal_exit_idx n (drop (searchsorted_right (where_eq signals (- 1)) e) (where_eq signals (- 1)))"
  shows "signals ! i \<noteq> - 1"
proof (cases "filter (\<lambda>i. signals ! i = - 1) [Suc e..<length signals]")
  case Nil
  then have "\<forall>j\<in>set [Suc e..<length signals]. signals ! j \<noteq> - 1"
    by (simp add: filter_empty_conv)
  with assms(1,2) show ?thesis by simp
next
  case (Cons v vs)
  from first_filter_upt [OF Cons] have "\<forall>j. Suc e \<le> j \<and> j < v \<longrightarrow> signals ! j \<noteq> - 1" by simp
  moreover have "i < v" using assms(3) by (simp add: valid_exits_filter Cons signal_exit_idx_def)
  ultimately show ?thesis using assms(1) by simp
qed

lemma exit_signal_at:
  assumes "signal_exit_idx n (drop (searchsorted_right (where_eq signals (- 1)) e) (where_eq signals (- 1)))
             \<noteq> n - 1"
  shows "signals ! signal_exit_idx n (drop (searchsorted_right (where_eq signals (- 1)) e)
                                       (where_eq signals (- 1))) = - 1"
proof (cases "filter (\<lambda>i. signals ! i = - 1) [Suc e..<length signals]")
  case Nil
  with assms show ?thesis by (simp add: valid_exits_filter signal_exit_idx_def)
next
  case (Cons v vs)
  from first_filter_upt [OF Cons] show ?thesis
    by (simp add: valid_exits_filter Cons signal_exit_idx_def)
qed

lemma exit_for_clean:
  assumes ts: "\<not> trailing_stop_enabled self"
    and len: "length signals = length df"
    and sp: "\<forall>i. i + 1 < length df \<longrightarrow> Date (df ! i) + ns_per_day \<le> Date (df ! (i + 1))"
    and mx: "0 \<le> max_holding_days self"
    and e: "e < length df"
    and r: "r = exit_for self df (where_eq signals (- 1)) sl st e"
    and x: "fst r + 1 < length df"
    and tie: "snd (snd r) \<noteq> Signal
              \<or> days_between (Date (df ! e)) (Date (df ! fst r)) < max_holding_days self"
  shows "e < fst r"
    and "\<forall>i. e < i \<and> i < fst r \<longrightarrow> signals ! i \<noteq> - 1
            \<and> days_between (Date (df ! e)) (Date (df ! i)) < max_holding_days self"
    and "signals ! fst r = - 1 \<or> max_holding_days self \<le> days_between (Date (df ! e)) (Date (df ! fst r))"
    and "fst (snd r) = (max_holding_days self \<le> days_between (Date (df ! e)) (Date (df ! fst r)))"
    and "snd (snd r) = (if max_holding_days self \<le> days_between (Date (df ! e)) (Date (df ! fst r))
                        then ForcedMax else Signal)"
proof -
  let ?xc = "where_eq signals (- 1)"
  let ?ve = "drop (searchsorted_right ?xc e) ?xc"
  let ?sg = "signal_exit_idx (length df) ?ve"
  let ?fo = "forced_exit_idx self df e"
  let ?D = "\<lambda>i. days_between (Date (df ! e)) (Date (df ! i))"
  have tsn: "trailing_stop_idx self df st e (Close (df ! e) * (1 + sl)) = None"
    using ts by (simp add: trailing_stop_idx_def)
  have rr: "r = resolve_exit (length df) ?ve None ?fo"
    unfolding r exit_for_def Let_def tsn ..
  have nl: "fst r \<noteq> length df - 1" using x by simp
  have sgge: "e \<le> ?sg" using signal_exit_idx_ge [OF e] .
  show "e < fst r" "\<forall>i. e < i \<and> i < fst r \<longrightarrow> signals ! i \<noteq> - 1 \<and> ?D i < max_holding_days self"
       "signals ! fst r = - 1 \<or> max_holding_days self \<le> ?D (fst r)"
       "fst (snd r) = (max_holding_days self \<le> ?D (fst r))"
       "snd (snd r) = (if max_holding_days self \<le> ?D (fst r) then ForcedMax else Signal)"
  proof -
    have "e < fst r
       \<and> (\<forall>i. e < i \<and> i < fst r \<longrightarrow> signals ! i \<noteq> - 1 \<and> ?D i < max_holding_days self)
       \<and> (signals ! fst r = - 1 \<or> max_holding_days self \<le> ?D (fst r))
       \<and> fst (snd r) = (max_holding_days self \<le> ?D (fst r))
       \<and> snd (snd r) = (if max_holding_days self \<le> ?D (fst r) then ForcedMax else Signal)"
    proof (cases "\<exists>f. ?fo = Some f \<and> f < ?sg")
      case True
      then obtain f where forced: "?fo = Some f" "f < ?sg" by blast
      have req: "r = (f, True, ForcedMax)"
        using forced by (simp add: rr resolve_exit_def Let_def)
      from forced_exit_idx_bounds [OF forced(1)] have fb: "e < f" "f < length df" by simp_all
      from forced_exit_idx_Some [OF forced(1)]
      have fd: "max_holding_days self \<le> ?D f" "\<forall>i. e < i \<and> i < f \<longrightarrow> ?D i < max_holding_days self"
        by simp_all
      have sig: "signals ! i \<noteq> - 1" if "e < i" "i < f" for i
        using no_exit_signal_before [of e i signals "length df"] that forced(2) fb len by simp
      show ?thesis using fb fd sig by (simp add: req)
    next
      case False
      then have signal: "?fo = None \<or> (\<exists>f. ?fo = Some f \<and> ?sg \<le> f)"
        by (cases ?fo) (auto simp: not_less)
      have r2: "resolve_exit (length df) ?ve None ?fo
                 = (if ?sg = length df - 1 \<and> (?ve = [] \<or> hd ?ve = length df - 1)
                    then (?sg, True, EndOfData) else (?sg, False, Signal))"
        using signal by (auto simp: resolve_exit_def Let_def)
      have fr: "fst r = ?sg" unfolding rr r2 by simp
      then have sgn: "?sg \<noteq> length df - 1" using nl by simp
      then have req: "r = (?sg, False, Signal)" unfolding rr r2 by simp
      have sat: "signals ! ?sg = - 1" using exit_signal_at [OF sgn] .
      have lt: "e < ?sg"
      proof (cases "filter (\<lambda>i. signals ! i = - 1) [Suc e..<length signals]")
        case Nil
        with sgn show ?thesis by (simp add: valid_exits_filter signal_exit_idx_def)
      next
        case (Cons v vs)
        from first_filter_upt [OF Cons] show ?thesis
          by (simp add: valid_exits_filter Cons signal_exit_idx_def)
      qed
      have notie: "?D ?sg < max_holding_days self" using tie req by simp
      have days: "?D i < max_holding_days self" if "e < i" "i < ?sg" for i
      proof (cases ?fo)
        case None
        have "i < length df" using that(2) x fr by simp
        from forced_exit_idx_None [OF None sp mx that(1) this] show ?thesis .
      next
        case (Some f)
        with signal have "?sg \<le> f" by simp
        with forced_exit_idx_Some [OF Some] that show ?thesis by simp
      qed
      have sig: "signals ! i \<noteq> - 1" if "e < i" "i < ?sg" for i
        using no_exit_signal_before [of e i signals "length df"] that x fr len by simp
      show ?thesis using lt sat notie days sig by (simp add: req)
    qed
    then show "e < fst r" "\<forall>i. e < i \<and> i < fst r \<longrightarrow> signals ! i \<noteq> - 1 \<and> ?D i < max_holding_days self"
       "signals ! fst r = - 1 \<or> max_holding_days self \<le> ?D (fst r)"
       "fst (snd r) = (max_holding_days self \<le> ?D (fst r))"
       "snd (snd r) = (if max_holding_days self \<le> ?D (fst r) then ForcedMax else Signal)"
      by blast+
  qed
qed

lemma per_bar_trade:
  assumes ts: "\<not> trailing_stop_enabled self"
    and len: "length signals = length df"
    and sp: "\<forall>i. i + 1 < length df \<longrightarrow> Date (df ! i) + ns_per_day \<le> Date (df ! (i + 1))"
    and mx: "0 \<le> max_holding_days self"
    and e: "e < length df" and ent: "signals ! e = 1"
    and flat: "b_position sb = 0"
    and r: "r = exit_for self df (where_eq signals (- 1)) sl st e"
    and ep: "0 < Close (df ! e) * (1 + sl)"
    and ps: "position_size (b_cash sb) (Close (df ! e) * (1 + sl)) = Inr p"
    and pos: "0 < p"
    and x: "fst r + 1 < length df"
    and tie: "snd (snd r) \<noteq> Signal
              \<or> days_between (Date (df ! e)) (Date (df ! fst r)) < max_holding_days self"
  shows "\<exists>sb2. bar_loop self df signals 0 sl lr st [e..<Suc (fst r)] sb = Inr sb2
            \<and> b_position sb2 = 0
            \<and> b_cash sb2 = cash_after df 0 sl lr st e (fst r) p (b_cash sb)
            \<and> b_trades sb2 = b_trades sb @ [make_trade self df 0 sl lr st e r p]"
proof -
  let ?ep = "Close (df ! e) * (1 + sl)"
  let ?pos = p
  let ?x = "fst r"
  note ch = exit_for_clean [OF ts len sp mx e r x tie]
  have iq: "int_of_quotient (b_cash sb) ?ep = Inr p" using ep ps by (simp add: position_size_def)
  have idx: "[e..<Suc ?x] = [e] @ [Suc e..<?x] @ [?x]"
    using ch(1) by (metis append_Cons append_Nil less_imp_le_nat upt_Suc_append upt_conv_Cons)
  \<comment> \<open>entry on bar e\<close>
  from entry_step [OF flat iq pos, of self lr st "Date (df ! e)"]
  obtain s1 where s1: "bar_step self 0 sl lr st (Date (df ! e)) (Close (df ! e)) 1 sb = Inr s1"
    "b_position s1 = ?pos" "b_entry_price s1 = ?ep" "b_entry_date s1 = Some (Date (df ! e))"
    "b_cash s1 = b_cash sb - real_of_int ?pos * ?ep" "b_trades s1 = b_trades sb"
    by auto
  have l1: "bar_loop self df signals 0 sl lr st [e] sb = Inr s1"
    using s1(1) e len ent by simp
  \<comment> \<open>holding until the exit bar\<close>
  have hold: "\<forall>i\<in>set [Suc e..<?x]. i < length signals \<and> signals ! i \<noteq> - 1
        \<and> days_between (Date (df ! e)) (Date (df ! i)) < max_holding_days self"
    using ch(2) x len by simp
  have p1: "0 < b_position s1" using s1(2) pos by simp
  from hold_scan [OF p1 s1(4) hold, of 0 sl lr st]
  obtain s2 where s2: "bar_loop self df signals 0 sl lr st [Suc e..<?x] s1 = Inr s2"
    "b_position s2 = ?pos" "b_cash s2 = b_cash s1" "b_trades s2 = b_trades sb"
    "b_entry_date s2 = Some (Date (df ! e))" "b_entry_price s2 = ?ep"
    using s1 by auto
  \<comment> \<open>exit on bar x\<close>
  have p2: "0 < b_position s2" using s2(2) pos by simp
  have c2: "b_cash s2 = b_cash sb - real_of_int (b_position s2) * ?ep"
    using s2(2,3) s1(5) by simp
  from exit_step [OF p2 s2(5) s2(6) ep ch(3) refl ch(4) ch(5) c2, of lr st]
  obtain s3 where s3: "bar_step self 0 sl lr st (Date (df ! ?x)) (Close (df ! ?x)) (signals ! ?x) s2 = Inr s3"
    "b_position s3 = 0"
    "b_cash s3 = cash_after df 0 sl lr st e ?x ?pos (b_cash sb)"
    "b_trades s3 = b_trades sb @ [make_trade self df 0 sl lr st e r ?pos]"
    using s2(2,4) by auto
  have l3: "bar_loop self df signals 0 sl lr st [?x] s2 = Inr s3"
    using s3(1) x len by simp
  have "bar_loop self df signals 0 sl lr st [e..<Suc ?x] sb = Inr s3"
    unfolding idx bar_loop_append l1 sum.case s2(1) l3 ..
  with s3 show ?thesis by blast
qed

lemma simulators_agree_from:
  assumes ts: "\<not> trailing_stop_enabled self"
    and len: "length signals = length df"
    and sp: "\<forall>i. i + 1 < length df \<longrightarrow> Date (df ! i) + ns_per_day \<le> Date (df ! (i + 1))"
    and mx: "0 \<le> max_holding_days self"
  shows "clean_run self df (where_eq signals (- 1)) 0 sl lr st cands sv
     \<Longrightarrow> sorted cands
     \<Longrightarrow> \<forall>c\<in>set cands. c < length df \<and> signals ! c = 1
     \<Longrightarrow> \<forall>i. v_current_pos sv \<le> i \<and> i < length df \<and> signals ! i = 1 \<longrightarrow> i \<in> set cands
     \<Longrightarrow> v_current_pos sv \<le> length df
     \<Longrightarrow> b_position sb = 0 \<Longrightarrow> b_cash sb = v_cash sv \<Longrightarrow> b_trades sb = v_trades sv
     \<Longrightarrow> \<exists>sv' sb'. vec_loop self df (where_eq signals (- 1)) 0 sl lr st cands sv = Inr sv'
            \<and> bar_loop self df signals 0 sl lr st [v_current_pos sv..<length df] sb = Inr sb'
            \<and> b_position sb' = 0 \<and> b_trades sb' = v_trades sv'"
proof (induction cands arbitrary: sv sb)
  case Nil
  have "\<forall>i\<in>set [v_current_pos sv..<length df]. i < length signals \<and> signals ! i \<noteq> 1"
    using Nil.prems(4) len by auto
  from flat_scan [OF Nil.prems(6) this, of self df 0 sl lr st] Nil.prems(8)
  show ?case by auto
next
  case (Cons e rest)
  let ?xc = "where_eq signals (- 1)"
  let ?k = "v_current_pos sv"
  from Cons.prems(1) obtain sv1 where
    cs: "clean_step self df ?xc sl st e sv"
    and st1: "vec_step self df ?xc 0 sl lr st e sv = Inr sv1"
    and cr: "clean_run self df ?xc 0 sl lr st rest sv1"
    by (auto split: sum.splits)
  have srt: "sorted rest" "\<forall>c\<in>set rest. e \<le> c" using Cons.prems(2) by simp_all
  have cand: "\<forall>c\<in>set rest. c < length df \<and> signals ! c = 1" using Cons.prems(3) by simp
  have e: "e < length df" "signals ! e = 1" using Cons.prems(3) by simp_all
  show ?case
  proof (cases "e < ?k")
    case True
    then have sv1: "sv1 = sv" using st1 by (simp add: vec_step_def)
    have inv: "\<forall>i. ?k \<le> i \<and> i < length df \<and> signals ! i = 1 \<longrightarrow> i \<in> set rest"
      using Cons.prems(4) True by auto
    from Cons.IH [OF cr [unfolded sv1] srt(1) cand inv Cons.prems(5-8)]
    show ?thesis using st1 sv1 by simp
  next
    case False
    let ?r = "exit_for self df ?xc sl st e"
    let ?x = "fst ?r"
    let ?ep = "Close (df ! e) * (1 + sl)"
    from cs False obtain p where ps: "position_size (v_cash sv) ?ep = Inr p"
      and cl: "0 < ?ep" "0 < p" "?x + 1 < length df"
      "snd (snd ?r) \<noteq> Signal \<or> days_between (Date (df ! e)) (Date (df ! ?x)) < max_holding_days self"
      by (auto simp: clean_step_def Let_def split: sum.splits)
    let ?pos = p
    have sv1: "sv1 = \<lparr>v_cash = cash_after df 0 sl lr st e ?x ?pos (v_cash sv),
                     v_current_pos = ?x + 1,
                     v_trades = v_trades sv @ [make_trade self df 0 sl lr st e ?r ?pos]\<rparr>"
      using st1 False e(1) cl(2,3) ps by (simp add: vec_step_def Let_def)
    \<comment> \<open>the per-bar simulator stays flat up to bar e\<close>
    have noent: "\<forall>i\<in>set [?k..<e]. i < length signals \<and> signals ! i \<noteq> 1"
    proof
      fix i assume i: "i \<in> set [?k..<e]"
      then have il: "i < length df" using e(1) by simp
      have "signals ! i \<noteq> 1"
      proof
        assume one: "signals ! i = 1"
        from i have ki: "?k \<le> i" by simp
        from Cons.prems(4) ki il one have "i \<in> set (e # rest)" by blast
        with srt(2) i show False by auto
      qed
      with il len show "i < length signals \<and> signals ! i \<noteq> 1" by simp
    qed
    from flat_scan [OF Cons.prems(6) noent, of self df 0 sl lr st]
    obtain sb1 where sb1: "bar_loop self df signals 0 sl lr st [?k..<e] sb = Inr sb1"
      "b_position sb1 = 0" "b_cash sb1 = b_cash sb" "b_trades sb1 = b_trades sb"
      by blast
    \<comment> \<open>and then makes the same trade\<close>
    have pos1: "position_size (b_cash sb1) ?ep = Inr p" using ps sb1(3) Cons.prems(7) by simp
    from per_bar_trade [OF ts len sp mx e(1) e(2) sb1(2) refl cl(1) pos1 cl(2) cl(3) cl(4), of lr]
    obtain sb2 where sb2: "bar_loop self df signals 0 sl lr st [e..<Suc ?x] sb1 = Inr sb2"
      "b_position sb2 = 0" "b_cash sb2 = v_cash sv1" "b_trades sb2 = v_trades sv1"
      using sb1(3,4) Cons.prems(7,8) sv1 by auto
    have ex: "e < ?x" using exit_for_clean(1) [OF ts len sp mx e(1) refl cl(3) cl(4)] .
    have inv: "\<forall>i. v_current_pos sv1 \<le> i \<and> i < length df \<and> signals ! i = 1 \<longrightarrow> i \<in> set rest"
    proof (intro allI impI)
      fix i assume i: "v_current_pos sv1 \<le> i \<and> i < length df \<and> signals ! i = 1"
      then have "?k \<le> i" "i \<noteq> e" using ex False sv1 by simp_all
      with Cons.prems(4) i show "i \<in> set rest" by auto
    qed
    have k1: "v_current_pos sv1 \<le> length df" using cl(3) sv1 by simp
    from Cons.IH [OF cr srt(1) cand inv k1 sb2(2) sb2(3) sb2(4)]
    obtain sv' sb' where fin: "vec_loop self df ?xc 0 sl lr st rest sv1 = Inr sv'"
      "bar_loop self df signals 0 sl lr st [v_current_pos sv1..<length df] sb2 = Inr sb'"
      "b_position sb' = 0" "b_trades sb' = v_trades sv'"
      by blast
    have cur1: "v_current_pos sv1 = Suc ?x" using sv1 by simp
    have idx: "[?k..<length df] = [?k..<e] @ [e..<Suc ?x] @ [Suc ?x..<length df]"
    proof -
      have "?k \<le> e" using False by simp
      moreover have "e \<le> Suc ?x" using ex by simp
      moreover have "Suc ?x \<le> length df" using cl(3) by simp
      ultimately show ?thesis
        by (metis le_trans upt_add_eq_append le_add_diff_inverse)
    qed
    have "bar_loop self df signals 0 sl lr st [?k..<length df] sb = Inr sb'"
      unfolding idx bar_loop_append sb1(1) sum.case sb2(1) using fin(2) cur1 by simp
    with fin st1 show ?thesis by simp
  qed
qed

lemma sorted_where_eq: "sorted (where_eq arr v)"
  by (simp add: where_eq_def sorted_wrt_filter)

text \<open>
  C1 (amended). With the trailing stop disabled and no commission, on bars at least one
  day apart, with a signal series as long as the frame and a maximum holding period that
  is not negative, the per-bar simulator and the vectorised simulator return the same
  trade list on every clean run: every considered entry buys at least one share, every
  position is closed before the last bar, and no exit signal falls on a bar where the
  maximum holding period is reached. This holds for Long and Short, for any slippage and
  lending rate.
\<close>

theorem simulators_agree_on_clean_runs:
  assumes "\<not> trailing_stop_enabled self"
    and "length signals = length df"
    and "\<forall>i. i + 1 < length df \<longrightarrow> Date (df ! i) + ns_per_day \<le> Date (df ! (i + 1))"
    and "0 \<le> max_holding_days self"
    and "clean_run self df (where_eq signals (- 1)) 0 slippage lending_rate st (where_eq signals 1)
           \<lparr>v_cash = initial_capital self, v_current_pos = 0, v_trades = []\<rparr>"
  shows "\<exists>trades equity_b equity_v.
           execute_trades self df signals 0 slippage lending_rate st = Inr (trades, equity_b)
         \<and> execute_trades_vectorized self df signals 0 slippage lending_rate st = Inr (trades, equity_v)"
proof (cases "df = []")
  case True
  then show ?thesis
    by (simp add: execute_trades_def execute_trades_vectorized_def close_at_end_def)
next
  case False
  let ?sv = "\<lparr>v_cash = initial_capital self, v_current_pos = 0, v_trades = []\<rparr>"
  let ?sb = "\<lparr>b_cash = initial_capital self, b_position = 0, b_entry_price = 0,
              b_entry_date = None, b_trades = [], b_equity = []\<rparr>"
  have cand: "\<forall>c\<in>set (where_eq signals 1). c < length df \<and> signals ! c = 1"
    using assms(2) by (simp add: where_eq_def)
  have inv: "\<forall>i. v_current_pos ?sv \<le> i \<and> i < length df \<and> signals ! i = 1
               \<longrightarrow> i \<in> set (where_eq signals 1)"
    using assms(2) by (simp add: where_eq_def)
  from simulators_agree_from [OF assms(1-4) assms(5) sorted_where_eq cand inv, of ?sb]
  obtain sv' sb' where fin:
    "vec_loop self df (where_eq signals (- 1)) 0 slippage lending_rate st (where_eq signals 1) ?sv = Inr sv'"
    "bar_loop self df signals 0 slippage lending_rate st [0..<length df] ?sb = Inr sb'"
    "b_position sb' = 0" "b_trades sb' = v_trades sv'"
    by auto
  have "execute_trades self df signals 0 slippage lending_rate st = Inr (v_trades sv', b_equity sb')"
    using fin(2,3,4) by (simp add: execute_trades_def close_at_end_def)
  moreover have "execute_trades_vectorized self df signals 0 slippage lending_rate st
      = Inr (v_trades sv', calculate_equity_from_trades_vectorized self df (v_trades sv') st)"
    using False fin(1) by (simp add: execute_trades_vectorized_def Let_def)
  ultimately show ?thesis by blast
qed

text \<open>
  C1 as stated fails: the per-bar simulator has no trailing stop. After an entry at 100
  and a close of 80 on the next bar, the vectorised simulator exits there by trailing
  stop, while the per-bar simulator holds until the data ends.
\<close>

theorem simulators_disagree_on_trailing_stop:
  "execute_trades (engine_of 1000 True) (daily [100, 80, 80]) [1, 0, 0] 0 0 0 Long
     = Inr ([\<lparr>entry_date = 0, exit_date = 172800000000000, entry_price = 100,
              exit_price = 80, shares = 10, profit = - 200, profit_pct = - 20,
              holding_days = 2, forced_exit = True, within_target_period = True,
              exit_reason = EndOfData\<rparr>],
            [1000, 800, 800])
   \<and> execute_trades_vectorized (engine_of 1000 True) (daily [100, 80, 80]) [1, 0, 0] 0 0 0 Long
     = Inr ([\<lparr>entry_date = 0, exit_date = 86400000000000, entry_price = 100,
              exit_price = 80, shares = 10, profit = - 200, profit_pct = - 20,
              holding_days = 1, forced_exit = False, within_target_period = True,
              exit_reason = TrailingStop\<rparr>],
            [1000, 800, 800])
   \<and> [\<lparr>entry_date = 0, exit_date = 172800000000000, entry_price = 100,
              exit_price = 80, shares = 10, profit = - 200, profit_pct = - 20,
              holding_days = 2, forced_exit = True, within_target_period = True,
              exit_reason = EndOfData\<rparr>]
     \<noteq> [\<lparr>entry_date = 0, exit_date = 86400000000000, entry_price = 100,
              exit_price = (80 :: real), shares = 10, profit = - 200, profit_pct = - 20,
              holding_days = 1, forced_exit = False, within_target_period = True,
              exit_reason = TrailingStop\<rparr>]"
  by code_simp

theorem simulators_agree_on_clean_runs_witness:
  "\<not> trailing_stop_enabled (engine_of 1000 False)
   \<and> length [1, - 1, 0, 1, - 1, 0 :: int] = length (daily [100, 110, 110, 100, 120, 120])
   \<and> list_all (\<lambda>i. Date (daily [100, 110, 110, 100, 120, 120] ! i) + ns_per_day
                      \<le> Date (daily [100, 110, 110, 100, 120, 120] ! (i + 1)))
        [0..<length (daily [100, 110, 110, 100, 120, 120]) - 1]
   \<and> 0 \<le> max_holding_days (engine_of 1000 False)
   \<and> clean_run (engine_of 1000 False) (daily [100, 110, 110, 100, 120, 120])
        (where_eq [1, - 1, 0, 1, - 1, 0] (- 1)) 0 (1 / 100) (1 / 100) Short
        (where_eq [1, - 1, 0, 1, - 1, 0] 1)
        \<lparr>v_cash = initial_capital (engine_of 1000 False), v_current_pos = 0, v_trades = []\<rparr>
   \<and> (\<exists>trades equity_b equity_v.
         execute_trades (engine_of 1000 False) (daily [100, 110, 110, 100, 120, 120])
           [1, - 1, 0, 1, - 1, 0] 0 (1 / 100) (1 / 100) Short = Inr (trades, equity_b)
       \<and> execute_trades_vectorized (engine_of 1000 False) (daily [100, 110, 110, 100, 120, 120])
           [1, - 1, 0, 1, - 1, 0] 0 (1 / 100) (1 / 100) Short = Inr (trades, equity_v))"
proof -
  let ?e = "engine_of 1000 False"
  let ?df = "daily [100, 110, 110, 100, 120, 120]"
  let ?sg = "[1, - 1, 0, 1, - 1, 0 :: int]"
  have h1: "\<not> trailing_stop_enabled ?e" by code_simp
  have h2: "length ?sg = length ?df" by code_simp
  have la: "list_all (\<lambda>i. Date (?df ! i) + ns_per_day \<le> Date (?df ! (i + 1)))
              [0..<length ?df - 1]" by code_simp
  have h3: "\<forall>i. i + 1 < length ?df \<longrightarrow> Date (?df ! i) + ns_per_day \<le> Date (?df ! (i + 1))"
  proof (intro allI impI)
    fix i assume "i + 1 < length ?df"
    then have "i \<in> set [0..<length ?df - 1]" by simp
    with la show "Date (?df ! i) + ns_per_day \<le> Date (?df ! (i + 1))"
      unfolding list_all_iff by blast
  qed
  have h4: "0 \<le> max_holding_days ?e" by code_simp
  have h5: "clean_run ?e ?df (where_eq ?sg (- 1)) 0 (1 / 100) (1 / 100) Short (where_eq ?sg 1)
        \<lparr>v_cash = initial_capital ?e, v_current_pos = 0, v_trades = []\<rparr>" by code_simp
  from simulators_agree_on_clean_runs [OF h1 h2 h3 h4 h5] h1 h2 la h4 h5
  show ?thesis by blast
qed

end
